theory Spec2Isabelle
  imports Complex_Main "HOL-Library.Word"
begin

section \<open>JavaScript strings\<close>

text \<open>
  A JavaScript string is a sequence of UTF-16 code units. The regular expressions of the
  handler (\<^verbatim>\<open>/[.!?]$/\<close>, \<^verbatim>\<open>/\s$/\<close>, no \<^verbatim>\<open>u\<close> or \<^verbatim>\<open>m\<close> flag) and
  \<^verbatim>\<open>String.prototype.trim\<close> work on code units, so a string is a list of 16-bit words.
  \<open>js\<close> turns an ASCII literal into such a string.
\<close>

type_synonym jschar = "16 word"
type_synonym jsstring = "jschar list"

definition js :: "string \<Rightarrow> jsstring" where
  "js s = map of_char s"

text \<open>
  The class \<^verbatim>\<open>\s\<close> of ECMAScript: WhiteSpace and LineTerminator. \<^verbatim>\<open>trim\<close> strips
  exactly the same code units from both ends.
\<close>

definition isWhiteSpace :: "jschar \<Rightarrow> bool" where
  "isWhiteSpace c \<longleftrightarrow>
     c \<in> {0x9, 0xA, 0xB, 0xC, 0xD, 0x20, 0xA0, 0x1680, 0x2028, 0x2029, 0x202F, 0x205F,
          0x3000, 0xFEFF}
     \<or> (0x2000 \<le> c \<and> c \<le> 0x200A)"

definition trim :: "jsstring \<Rightarrow> jsstring" where
  "trim s = rev (dropWhile isWhiteSpace (rev (dropWhile isWhiteSpace s)))"

text \<open>\<^verbatim>\<open>Array.prototype.join\<close> on an array of strings.\<close>

fun join :: "jsstring \<Rightarrow> jsstring list \<Rightarrow> jsstring" where
  "join sep [] = []"
| "join sep [x] = x"
| "join sep (x # y # ys) = x @ sep @ join sep (y # ys)"

abbreviation (input) blankLine :: jsstring where
  "blankLine \<equiv> [0xA, 0xA]"

section \<open>Errors and the document as pdf.js presents it\<close>

text \<open>
  A thrown \<^verbatim>\<open>Error\<close> is a value carrying its message. Whatever pdf.js, canvas and
  tesseract.js answer is part of the input: a call that may reject is a sum with the
  error on the left.
\<close>

datatype error = Error jsstring

fun message :: "error \<Rightarrow> jsstring" where
  "message (Error m) = m"

datatype operator =
  paintImageXObject | paintImageXObjectRepeat | paintJpegXObject | otherOperator nat

definition validObjectTypes :: "operator list" where
  "validObjectTypes = [paintImageXObject, paintImageXObjectRepeat, paintJpegXObject]"

text \<open>
  What \<^verbatim>\<open>page.objs.get(imageName, ...)\<close> resolves to: \<open>obj_data\<close> is \<open>None\<close> when
  the object has no pixel data, \<open>obj_png\<close> is what lines 109 to 129 (alpha channel,
  canvas, PNG, base64) produce for it, or the error they throw.
\<close>

record image_object =
  obj_data :: "8 word list option"
  obj_width :: rat
  obj_height :: rat
  obj_png :: "error + jsstring"

text \<open>
  The page rendered at scale 2.0: the viewport's dimensions and the base64 PNG of the
  canvas.
\<close>

record page_capture =
  viewport_width :: rat
  viewport_height :: rat
  canvas_png :: jsstring

text \<open>
  A page: \<open>getTextContent\<close> gives the \<^verbatim>\<open>str\<close> of each item, \<open>getOperatorList\<close> pairs each
  entry of \<^verbatim>\<open>fnArray\<close> with what resolving \<^verbatim>\<open>argsArray[j][0]\<close> gives (\<open>Inr None\<close>:
  a null image), \<open>renderPage\<close> is the page capture or the error it throws.
\<close>

record pdf_page =
  getTextContent :: "error + jsstring list"
  getOperatorList :: "error + (operator \<times> (error + image_object option)) list"
  renderPage :: "error + page_capture"

text \<open>
  \<^verbatim>\<open>pdfjs.getDocument(...).promise\<close> rejects or gives the pages; \<^verbatim>\<open>pdf.getPage(i)\<close> may
  reject for each of them.
\<close>

type_synonym pdf_document = "error + (error + pdf_page) list"

section \<open>extractText\<close>

definition testPunctuationEnd :: "jsstring \<Rightarrow> bool" where
  "testPunctuationEnd text \<longleftrightarrow> text \<noteq> [] \<and> last text \<in> {0x2E, 0x21, 0x3F}"

definition testWhiteSpaceEnd :: "jsstring \<Rightarrow> bool" where
  "testWhiteSpaceEnd text \<longleftrightarrow> text \<noteq> [] \<and> isWhiteSpace (last text)"

definition reducer :: "jsstring \<Rightarrow> jsstring \<Rightarrow> jsstring" where
  "reducer text word =
     (if testPunctuationEnd text then text @ [0x20] @ word
      else if testWhiteSpaceEnd text then text @ word
      else text @ [0x20] @ word)"

definition pageText :: "jsstring list \<Rightarrow> jsstring" where
  "pageText items = foldl reducer [] items"

fun textLoop :: "(error + pdf_page) list \<Rightarrow> jsstring \<Rightarrow> error + jsstring" where
  "textLoop [] fullText = Inr fullText"
| "textLoop (p # ps) fullText =
     (case p of
        Inl e \<Rightarrow> Inl e
      | Inr page \<Rightarrow>
          (case getTextContent page of
             Inl e \<Rightarrow> Inl e
           | Inr items \<Rightarrow> textLoop ps (fullText @ pageText items @ blankLine)))"

definition extractText :: "pdf_document \<Rightarrow> error + jsstring" where
  "extractText pdfData =
     (case pdfData of
        Inl e \<Rightarrow> Inl e
      | Inr pdf \<Rightarrow>
          (case textLoop pdf [] of
             Inl e \<Rightarrow> Inl e
           | Inr fullText \<Rightarrow> Inr (trim fullText)))"

section \<open>extractImages\<close>

datatype image_type = TypeImage | TypePage

record image =
  data :: jsstring
  type :: image_type
  pageNumber :: nat
  width :: rat
  height :: rat

text \<open>
  One iteration of the loop over \<^verbatim>\<open>fnArray\<close>: the truthiness tests of line 108 (a number
  is falsy when it is 0), and the \<^verbatim>\<open>catch\<close> that skips an image whose processing throws.
\<close>

definition processOperator ::
  "nat \<Rightarrow> operator \<times> (error + image_object option) \<Rightarrow> image list \<Rightarrow> image list" where
  "processOperator i op images =
     (if fst op \<in> set validObjectTypes then
        (case snd op of
           Inl imgError \<Rightarrow> images
         | Inr None \<Rightarrow> images
         | Inr (Some img) \<Rightarrow>
             if obj_data img \<noteq> None \<and> obj_width img \<noteq> 0 \<and> obj_height img \<noteq> 0
                \<and> 50 < obj_width img \<and> 50 < obj_height img
             then (case obj_png img of
                     Inl imgError \<Rightarrow> images
                   | Inr pngData \<Rightarrow>
                       images @ [\<lparr>data = pngData, type = TypeImage, pageNumber = i,
                                  width = obj_width img, height = obj_height img\<rparr>])
             else images)
      else images)"

fun operatorLoop ::
  "nat \<Rightarrow> (operator \<times> (error + image_object option)) list \<Rightarrow> image list \<Rightarrow> image list" where
  "operatorLoop i [] images = images"
| "operatorLoop i (op # ops) images = operatorLoop i ops (processOperator i op images)"

definition capturePage :: "nat \<Rightarrow> pdf_page \<Rightarrow> image list \<Rightarrow> image list" where
  "capturePage i page images =
     (case renderPage page of
        Inl pageError \<Rightarrow> images
      | Inr cap \<Rightarrow>
          images @ [\<lparr>data = canvas_png cap, type = TypePage, pageNumber = i,
                     width = viewport_width cap, height = viewport_height cap\<rparr>])"

fun pageLoop :: "nat \<Rightarrow> (error + pdf_page) list \<Rightarrow> image list \<Rightarrow> error + image list" where
  "pageLoop i [] images = Inr images"
| "pageLoop i (p # ps) images =
     (case p of
        Inl e \<Rightarrow> Inl e
      | Inr page \<Rightarrow>
          (case getOperatorList page of
             Inl e \<Rightarrow> Inl e
           | Inr ops \<Rightarrow> pageLoop (Suc i) ps (capturePage i page (operatorLoop i ops images))))"

text \<open>The comparator passed to \<^verbatim>\<open>images.sort\<close> (lines 170 to 175).\<close>

definition compareImages :: "image \<Rightarrow> image \<Rightarrow> int" where
  "compareImages a b =
     (if pageNumber a \<noteq> pageNumber b then int (pageNumber a) - int (pageNumber b)
      else if type a = TypePage then -1 else 1)"

text \<open>
  \<^verbatim>\<open>Array.prototype.sort\<close> is a builtin of the engine. ECMAScript requires it to be
  stable, and V8 (TimSort) takes every decision by testing whether the comparator's
  answer is negative. It is modelled as the stable insertion sort that takes its
  decisions by the same test: an element goes before the first one it compares
  negative with.
\<close>

fun insertSorted :: "('a \<Rightarrow> 'a \<Rightarrow> int) \<Rightarrow> 'a \<Rightarrow> 'a list \<Rightarrow> 'a list" where
  "insertSorted cmp x [] = [x]"
| "insertSorted cmp x (y # ys) =
     (if cmp x y < 0 then x # y # ys else y # insertSorted cmp x ys)"

definition js_sort :: "('a \<Rightarrow> 'a \<Rightarrow> int) \<Rightarrow> 'a list \<Rightarrow> 'a list" where
  "js_sort cmp xs = foldl (\<lambda>sorted x. insertSorted cmp x sorted) [] xs"

definition extractImages :: "pdf_document \<Rightarrow> image list" where
  "extractImages pdfData =
     (case pdfData of
        Inl e \<Rightarrow> []
      | Inr pdf \<Rightarrow>
          (case pageLoop 1 pdf [] of
             Inl e \<Rightarrow> []
           | Inr images \<Rightarrow> js_sort compareImages images))"

section \<open>performOCR\<close>

text \<open>
  A tesseract.js worker: what each of its calls answers (\<open>None\<close>: the call resolves).
  The recognition engine is the function \<open>createWorker\<close> of the environment; its
  argument counts the calls of one request, so that every pass may meet a different
  worker.
\<close>

record worker =
  loadLanguage :: "error option"
  initialize :: "error option"
  recognize :: "jsstring \<Rightarrow> error + jsstring"
  terminate :: "error option"

text \<open>
  The calls a request makes, in order. \<open>Acquire n\<close>: the \<open>n\<close>-th \<^verbatim>\<open>createWorker()\<close>
  resolved with a worker; \<open>Release n\<close>: \<^verbatim>\<open>terminate()\<close> was called on that worker.
\<close>

datatype event =
  ExtractImages | ExtractText
  | Acquire nat | LoadLanguage nat | Initialize nat | Recognize nat jsstring | Release nat

text \<open>The \<^verbatim>\<open>try\<close> block of performOCR.\<close>

definition recognitionPass ::
  "nat \<Rightarrow> worker \<Rightarrow> jsstring \<Rightarrow> (error + jsstring) \<times> event list" where
  "recognitionPass n w imageBase64 =
     (case loadLanguage w of
        Some e \<Rightarrow> (Inl e, [LoadLanguage n])
      | None \<Rightarrow>
          (case initialize w of
             Some e \<Rightarrow> (Inl e, [LoadLanguage n, Initialize n])
           | None \<Rightarrow>
               (let dataUrl = js ''data:image/png;base64,'' @ imageBase64
                in (recognize w dataUrl,
                    [LoadLanguage n, Initialize n, Recognize n dataUrl]))))"

text \<open>
  \<^verbatim>\<open>createWorker\<close> is awaited before the \<^verbatim>\<open>try\<close>; the \<^verbatim>\<open>finally\<close> block runs
  \<^verbatim>\<open>terminate\<close> after the \<^verbatim>\<open>try\<close> block however it ends, and an error thrown there
  replaces the outcome of the \<^verbatim>\<open>try\<close> block.
\<close>

definition performOCR ::
  "(nat \<Rightarrow> error + worker) \<Rightarrow> nat \<Rightarrow> jsstring \<Rightarrow> (error + jsstring) \<times> event list" where
  "performOCR createWorker n imageBase64 =
     (case createWorker n of
        Inl e \<Rightarrow> (Inl e, [])
      | Inr w \<Rightarrow>
          (let (r, calls) = recognitionPass n w imageBase64
           in (case terminate w of
                 Some e \<Rightarrow> (Inl e, Acquire n # calls @ [Release n])
               | None \<Rightarrow> (r, Acquire n # calls @ [Release n]))))"

text \<open>
  The loop of the \<^verbatim>\<open>'ocr'\<close> case (lines 255 to 260): no \<^verbatim>\<open>catch\<close> around a pass, so an
  error thrown by performOCR leaves the loop.
\<close>

fun ocrLoop ::
  "(nat \<Rightarrow> error + worker) \<Rightarrow> nat \<Rightarrow> jsstring list \<Rightarrow> jsstring list
     \<Rightarrow> (error + jsstring list) \<times> event list" where
  "ocrLoop createWorker n [] ocrResults = (Inr ocrResults, [])"
| "ocrLoop createWorker n (imageBase64 # rest) ocrResults =
     (case performOCR createWorker n imageBase64 of
        (Inl e, calls) \<Rightarrow> (Inl e, calls)
      | (Inr ocrText, calls) \<Rightarrow>
          (let (r, calls') =
                 ocrLoop createWorker (Suc n) rest
                   (if trim ocrText \<noteq> [] then ocrResults @ [ocrText] else ocrResults)
           in (r, calls @ calls')))"

section \<open>createMetadata and the handler\<close>

record uploaded_file =
  originalname :: jsstring
  fsize :: nat
  buffer :: pdf_document

text \<open>
  The request after multer: \<open>upload\<close> is the outcome of the upload middleware (an error,
  no file, or the file); the three fields of \<^verbatim>\<open>req.body\<close> are absent or strings.
\<close>

record request =
  req_method :: jsstring
  upload :: "error + uploaded_file option"
  format :: "jsstring option"
  includeMetadata :: "jsstring option"
  includeImages :: "jsstring option"

text \<open>
  The environment of a request: the recognition engine and the clock, \<open>now\<close> being the
  string \<^verbatim>\<open>new Date().toISOString()\<close> returns.
\<close>

record environment =
  createWorker :: "nat \<Rightarrow> error + worker"
  now :: jsstring

record metadata =
  fileSize :: nat
  filename :: jsstring
  timestamp :: jsstring
  processedWith :: jsstring
  extractionMethod :: jsstring

record result =
  res_text :: "jsstring option"
  res_images :: "image list option"
  res_metadata :: "metadata option"

datatype body = ErrorBody jsstring | ResultBody result

record response =
  status :: nat
  json :: body

definition createMetadata :: "environment \<Rightarrow> uploaded_file \<Rightarrow> jsstring \<Rightarrow> metadata" where
  "createMetadata env fileInfo processedWith' =
     \<lparr>fileSize = fsize fileInfo, filename = originalname fileInfo, timestamp = now env,
      processedWith = processedWith', extractionMethod = js ''pdf.js-enhanced''\<rparr>"

text \<open>
  How the \<^verbatim>\<open>switch\<close> ends: with a result and the value of \<^verbatim>\<open>processedWith\<close>, with a
  thrown error (caught at line 283), or in its \<^verbatim>\<open>default\<close> branch.
\<close>

datatype outcome = Completed result jsstring | Thrown error | InvalidFormat

definition switchFormat ::
  "environment \<Rightarrow> uploaded_file \<Rightarrow> jsstring \<Rightarrow> image list option \<Rightarrow> outcome \<times> event list" where
  "switchFormat env file' format' extractedImages =
     (if format' = js ''text'' then
        (case extractText (buffer file') of
           Inl e \<Rightarrow> (Thrown e, [ExtractText])
         | Inr text \<Rightarrow>
             (Completed \<lparr>res_text = Some text, res_images = None, res_metadata = None\<rparr> format',
              [ExtractText]))
      else if format' = js ''markdown'' then
        (case extractText (buffer file') of
           Inl e \<Rightarrow> (Thrown e, [ExtractText])
         | Inr text \<Rightarrow>
             (Completed
                \<lparr>res_text = Some (js ''# '' @ originalname file' @ blankLine @ text),
                 res_images = None, res_metadata = None\<rparr> format',
              [ExtractText]))
      else if format' = js ''images'' then
        (Completed \<lparr>res_text = None, res_images = extractedImages, res_metadata = None\<rparr>
           (js ''pdf.js-enhanced''), [])
      else if format' = js ''ocr'' then
        (let (images, calls) =
               (case extractedImages of
                  Some imgs \<Rightarrow> (imgs, [])
                | None \<Rightarrow> (extractImages (buffer file'), [ExtractImages]))
         in (case ocrLoop (createWorker env) 0 (map data images) [] of
               (Inl e, calls') \<Rightarrow> (Thrown e, calls @ calls')
             | (Inr ocrResults, calls') \<Rightarrow>
                 (Completed
                    \<lparr>res_text = Some (join blankLine ocrResults), res_images = None,
                     res_metadata = None\<rparr>
                    (js ''pdf.js-enhanced+tesseract.js''), calls @ calls')))
      else (InvalidFormat, []))"

text \<open>Lines 222 to 282: the request has a file.\<close>

definition processFile :: "environment \<Rightarrow> request \<Rightarrow> uploaded_file \<Rightarrow> response \<times> event list" where
  "processFile env req file' =
     (let format' = (case format req of
                       None \<Rightarrow> js ''text''
                     | Some f \<Rightarrow> if f = [] then js ''text'' else f);
          includeMetadata' = (includeMetadata req = Some (js ''true''));
          includeImages' = (includeImages req = Some (js ''true''));
          (extractedImages, calls) =
            (if format' = js ''images'' \<or> includeImages'
             then (Some (extractImages (buffer file')), [ExtractImages])
             else (None, []));
          (out, calls') = switchFormat env file' format' extractedImages
      in (case out of
            InvalidFormat \<Rightarrow>
              (\<lparr>status = 400, json = ErrorBody (js ''Invalid format specified'')\<rparr>,
               calls @ calls')
          | Thrown e \<Rightarrow>
              (\<lparr>status = 500, json = ErrorBody (js ''Error processing PDF: '' @ message e)\<rparr>,
               calls @ calls')
          | Completed result processedWith' \<Rightarrow>
              (let result1 = (if includeImages' \<and> format' \<noteq> js ''images''
                              then result\<lparr>res_images := extractedImages\<rparr> else result);
                   result2 = (if includeMetadata'
                              then result1\<lparr>res_metadata :=
                                     Some (createMetadata env file' processedWith')\<rparr>
                              else result1)
               in (\<lparr>status = 200, json = ResultBody result2\<rparr>, calls @ calls'))))"

definition handler :: "environment \<Rightarrow> request \<Rightarrow> response \<times> event list" where
  "handler env req =
     (if req_method req \<noteq> js ''POST'' then
        (\<lparr>status = 405, json = ErrorBody (js ''Method not allowed'')\<rparr>, [])
      else
        (case upload req of
           Inl e \<Rightarrow>
             (\<lparr>status = 500, json = ErrorBody (js ''Error processing PDF: '' @ message e)\<rparr>, [])
         | Inr None \<Rightarrow>
             (\<lparr>status = 400, json = ErrorBody (js ''No PDF file uploaded'')\<rparr>, [])
         | Inr (Some file') \<Rightarrow> processFile env req file'))"

section \<open>Observations on a run\<close>

text \<open>
  The workers held after a sequence of calls, starting from the workers \<open>ws\<close>: acquiring
  adds the worker, releasing removes it.
\<close>

fun held :: "nat list \<Rightarrow> event list \<Rightarrow> nat list" where
  "held ws [] = ws"
| "held ws (Acquire n # es) = held (n # ws) es"
| "held ws (Release n # es) = held (remove1 n ws) es"
| "held ws (_ # es) = held ws es"

text \<open>The data URLs handed to \<^verbatim>\<open>worker.recognize\<close>, in order.\<close>

fun recognized :: "event list \<Rightarrow> jsstring list" where
  "recognized [] = []"
| "recognized (Recognize n d # es) = d # recognized es"
| "recognized (_ # es) = recognized es"

section \<open>The order of the extracted images\<close>

text \<open>
  The order the specification asks of two entries, the first before the second: a smaller
  page number, or the same page number and no embedded image before the page capture.
\<close>

definition keyLe :: "image \<Rightarrow> image \<Rightarrow> bool" where
  "keyLe a b \<longleftrightarrow> pageNumber a < pageNumber b \<or>
     (pageNumber a = pageNumber b \<and> (type a = TypePage \<or> type b = TypeImage))"

section \<open>The properties of the text, as the specification words them\<close>

text \<open>
  Two space characters in a row; a space character at the start; whitespace at the
  start, at the end.
\<close>

fun consecutiveSpaces :: "jsstring \<Rightarrow> bool" where
  "consecutiveSpaces [] = False"
| "consecutiveSpaces [a] = False"
| "consecutiveSpaces (a # b # s) = ((a = 0x20 \<and> b = 0x20) \<or> consecutiveSpaces (b # s))"

definition startsWithSpace :: "jsstring \<Rightarrow> bool" where
  "startsWithSpace s \<longleftrightarrow> s \<noteq> [] \<and> hd s = 0x20"

definition startsWithWhiteSpace :: "jsstring \<Rightarrow> bool" where
  "startsWithWhiteSpace s \<longleftrightarrow> s \<noteq> [] \<and> isWhiteSpace (hd s)"

definition endsWithWhiteSpace :: "jsstring \<Rightarrow> bool" where
  "endsWithWhiteSpace s \<longleftrightarrow> s \<noteq> [] \<and> isWhiteSpace (last s)"

text \<open>
  The reconstruction as the specification describes it (section 4.1): the fold of the
  code, then every page string trimmed, the page strings joined with a blank line, the
  joined string trimmed.
\<close>

definition spec_reconstruct :: "jsstring list list \<Rightarrow> jsstring" where
  "spec_reconstruct pages = trim (join blankLine (map (\<lambda>items. trim (pageText items)) pages))"

section \<open>A sample document and sample requests\<close>

text \<open>
  One page with the items \<^verbatim>\<open>Hello\<close> and \<^verbatim>\<open>world.\<close>, an embedded bitmap of 40 by 40, one
  of 100 by 100, and a page capture of 1224 by 1584.
\<close>

definition samplePage :: pdf_page where
  "samplePage =
     \<lparr>getTextContent = Inr [js ''Hello'', js ''world.''],
      getOperatorList = Inr
        [(paintImageXObject,
          Inr (Some \<lparr>obj_data = Some [], obj_width = 40, obj_height = 40,
                      obj_png = Inr (js ''S'')\<rparr>)),
         (paintImageXObject,
          Inr (Some \<lparr>obj_data = Some [], obj_width = 100, obj_height = 100,
                      obj_png = Inr (js ''B'')\<rparr>))],
      renderPage = Inr \<lparr>viewport_width = 1224, viewport_height = 1584,
                         canvas_png = js ''P''\<rparr>\<rparr>"

definition sampleFile :: uploaded_file where
  "sampleFile = \<lparr>originalname = js ''doc.pdf'', fsize = 10, buffer = Inr [Inr samplePage]\<rparr>"

text \<open>An engine whose workers all recognize the text \<open>t\<close>, and one whose recognition throws.\<close>

definition sampleEngine :: "jsstring \<Rightarrow> environment" where
  "sampleEngine t =
     \<lparr>createWorker = (\<lambda>n. Inr \<lparr>loadLanguage = None, initialize = None,
                                  recognize = (\<lambda>d. Inr t), terminate = None\<rparr>),
      now = js ''2024-01-01T00:00:00.000Z''\<rparr>"

definition failingEngine :: environment where
  "failingEngine =
     \<lparr>createWorker = (\<lambda>n. Inr \<lparr>loadLanguage = None, initialize = None,
                                  recognize = (\<lambda>d. Inl (Error (js ''boom''))),
                                  terminate = None\<rparr>),
      now = js ''2024-01-01T00:00:00.000Z''\<rparr>"

text \<open>
  An engine whose first worker recognizes an empty text and the others \<^verbatim>\<open>ok\<close>, and one
  whose second worker throws.
\<close>

definition mixedEngine :: environment where
  "mixedEngine =
     \<lparr>createWorker = (\<lambda>n. Inr \<lparr>loadLanguage = None, initialize = None,
                                  recognize = (\<lambda>d. Inr (if n = 0 then js '' '' else js ''ok'')),
                                  terminate = None\<rparr>),
      now = js ''2024-01-01T00:00:00.000Z''\<rparr>"

definition failingSecondEngine :: environment where
  "failingSecondEngine =
     \<lparr>createWorker = (\<lambda>n. Inr \<lparr>loadLanguage = None, initialize = None,
                                  recognize = (\<lambda>d. if n = 1 then Inl (Error (js ''boom''))
                                                    else Inr (js ''ok'')),
                                  terminate = None\<rparr>),
      now = js ''2024-01-01T00:00:00.000Z''\<rparr>"

definition sampleRequest ::
  "jsstring option \<Rightarrow> jsstring option \<Rightarrow> jsstring option \<Rightarrow> request" where
  "sampleRequest fmt meta imgs =
     \<lparr>req_method = js ''POST'', upload = Inr (Some sampleFile), format = fmt,
      includeMetadata = meta, includeImages = imgs\<rparr>"

text \<open>A page that has only text items; its capture fails.\<close>

definition textPage :: "jsstring list \<Rightarrow> pdf_page" where
  "textPage items =
     \<lparr>getTextContent = Inr items, getOperatorList = Inr [],
      renderPage = Inl (Error (js ''no canvas''))\<rparr>"

text \<open>The sample page twice.\<close>

definition twoPageFile :: uploaded_file where
  "twoPageFile =
     \<lparr>originalname = js ''two.pdf'', fsize = 20, buffer = Inr [Inr samplePage, Inr samplePage]\<rparr>"

section \<open>Properties\<close>

subsection \<open>Strings\<close>

lemma js_text_not_empty: "js ''text'' \<noteq> []"
  by (simp add: js_def)

lemma js_ocr_distinct:
  "js ''ocr'' \<noteq> []" "js ''ocr'' \<noteq> js ''text''" "js ''ocr'' \<noteq> js ''markdown''"
  "js ''ocr'' \<noteq> js ''images''"
  by (simp_all add: js_def)

subsection \<open>Trimming and joining\<close>

lemma dropWhile_snoc_keep: "\<not> P x \<Longrightarrow> \<exists>u. dropWhile P (xs @ [x]) = u @ [x]"
  by (induction xs) auto

lemma trim_not_starts: "\<not> startsWithWhiteSpace (trim s)"
proof (cases "dropWhile isWhiteSpace s")
  case Nil
  have "trim s = []" unfolding trim_def Nil by simp
  then show ?thesis by (simp add: startsWithWhiteSpace_def)
next
  case (Cons x t)
  then have nx: "\<not> isWhiteSpace x" using hd_dropWhile [of isWhiteSpace s] by simp
  obtain u where "dropWhile isWhiteSpace (rev t @ [x]) = u @ [x]"
    using dropWhile_snoc_keep [of isWhiteSpace x "rev t"] nx by blast
  then show ?thesis using Cons nx by (simp add: trim_def startsWithWhiteSpace_def)
qed

lemma trim_not_ends: "\<not> endsWithWhiteSpace (trim s)"
proof (cases "dropWhile isWhiteSpace (rev (dropWhile isWhiteSpace s))")
  case Nil
  have "trim s = []" unfolding trim_def Nil by simp
  then show ?thesis by (simp add: endsWithWhiteSpace_def)
next
  case (Cons x t)
  then have "\<not> isWhiteSpace x"
    using hd_dropWhile [of isWhiteSpace "rev (dropWhile isWhiteSpace s)"] by simp
  then show ?thesis using Cons by (simp add: trim_def endsWithWhiteSpace_def)
qed

lemma trim_append_whitespace:
  assumes "\<forall>c\<in>set w. isWhiteSpace c"
  shows "trim (s @ w) = trim s"
proof (cases "\<forall>c\<in>set s. isWhiteSpace c")
  case True
  with assms have a: "dropWhile isWhiteSpace (s @ w) = []" and b: "dropWhile isWhiteSpace s = []"
    by auto
  show ?thesis unfolding trim_def a b by simp
next
  case False
  then obtain x where "x \<in> set s" "\<not> isWhiteSpace x" by blast
  then have "dropWhile isWhiteSpace (s @ w) = dropWhile isWhiteSpace s @ w"
    by (rule dropWhile_append1)
  moreover have "dropWhile isWhiteSpace (rev w @ rev (dropWhile isWhiteSpace s))
      = dropWhile isWhiteSpace (rev (dropWhile isWhiteSpace s))"
    by (rule dropWhile_append2) (use assms in simp)
  ultimately show ?thesis by (simp add: trim_def)
qed

lemma trim_whitespace:
  assumes "\<forall>c\<in>set s. isWhiteSpace c"
  shows "trim s = []"
proof -
  from assms have a: "dropWhile isWhiteSpace s = []" by simp
  show ?thesis unfolding trim_def a by simp
qed

lemma concat_join:
  "xs \<noteq> [] \<Longrightarrow> concat (map (\<lambda>s. s @ sep) xs) = join sep xs @ sep"
  by (induction sep xs rule: join.induct) simp_all

lemma textLoop_pages:
  "map getTextContent pgs = map Inr itemss \<Longrightarrow>
   textLoop (map Inr pgs) acc = Inr (acc @ concat (map (\<lambda>items. pageText items @ blankLine) itemss))"
proof (induction pgs arbitrary: itemss acc)
  case Nil
  then show ?case by simp
next
  case (Cons pg pgs)
  then obtain items rest where i: "itemss = items # rest" by (cases itemss) auto
  with Cons.prems have "getTextContent pg = Inr items" "map getTextContent pgs = map Inr rest"
    by simp_all
  with Cons.IH [of rest] i show ?case by simp
qed

lemma isWhiteSpace_newline: "isWhiteSpace 0xA" "isWhiteSpace 0x20"
  by (simp_all add: isWhiteSpace_def)

lemma extractText_pages:
  assumes "map getTextContent pgs = map Inr itemss"
  shows "extractText (Inr (map Inr pgs)) = Inr (trim (join blankLine (map pageText itemss)))"
proof (cases "itemss = []")
  case True
  with assms show ?thesis by (simp add: extractText_def trim_def)
next
  case False
  then have "concat (map (\<lambda>items. pageText items @ blankLine) itemss)
     = join blankLine (map pageText itemss) @ blankLine"
    using concat_join [of "map pageText itemss" blankLine] by (simp add: comp_def)
  moreover have "trim (join blankLine (map pageText itemss) @ blankLine)
     = trim (join blankLine (map pageText itemss))"
    by (rule trim_append_whitespace) (simp add: isWhiteSpace_newline)
  ultimately show ?thesis
    using textLoop_pages [OF assms, of "[]"] by (simp add: extractText_def)
qed

lemma pageText_snoc: "pageText (items @ [word]) = reducer (pageText items) word"
  by (simp add: pageText_def)

subsection \<open>Consecutive spaces\<close>

lemma consecutiveSpaces_append:
  "consecutiveSpaces (a @ b) \<longleftrightarrow>
     consecutiveSpaces a \<or> consecutiveSpaces b \<or>
     (a \<noteq> [] \<and> b \<noteq> [] \<and> last a = 0x20 \<and> hd b = 0x20)"
proof (induction a rule: consecutiveSpaces.induct)
  case 1
  then show ?case by simp
next
  case (2 x)
  then show ?case by (cases b) auto
next
  case (3 x y s)
  then show ?case by auto
qed

lemma consecutiveSpaces_rev: "consecutiveSpaces (rev s) = consecutiveSpaces s"
proof (induction s rule: consecutiveSpaces.induct)
  case (3 a b s)
  then show ?case
    by (auto simp add: consecutiveSpaces_append last_rev hd_rev)
qed simp_all

lemma consecutiveSpaces_dropWhile:
  "consecutiveSpaces (dropWhile P s) \<Longrightarrow> consecutiveSpaces s"
proof -
  assume a: "consecutiveSpaces (dropWhile P s)"
  have "s = takeWhile P s @ dropWhile P s" by simp
  then have "consecutiveSpaces s = consecutiveSpaces (takeWhile P s @ dropWhile P s)" by simp
  with a show ?thesis by (simp only: consecutiveSpaces_append) simp
qed

lemma consecutiveSpaces_trim: "consecutiveSpaces (trim s) \<Longrightarrow> consecutiveSpaces s"
  unfolding trim_def consecutiveSpaces_rev
  by (drule consecutiveSpaces_dropWhile) (simp add: consecutiveSpaces_rev consecutiveSpaces_dropWhile)

lemma space_not_punctuation: "testPunctuationEnd text \<Longrightarrow> last text \<noteq> 0x20"
  by (auto simp add: testPunctuationEnd_def)

lemma reducer_no_consecutiveSpaces:
  assumes "\<not> consecutiveSpaces text" and "\<not> startsWithSpace word"
    and w: "\<not> consecutiveSpaces word"
  shows "\<not> consecutiveSpaces (reducer text word)"
proof -
  have h: "word \<noteq> [] \<Longrightarrow> hd word \<noteq> 0x20" using assms(2) by (simp add: startsWithSpace_def)
  have sw: "\<not> consecutiveSpaces (0x20 # word)" using w h by (cases word) auto
  show ?thesis
  proof (cases "testPunctuationEnd text")
    case True
    then show ?thesis
      using assms(1) sw space_not_punctuation [OF True]
      by (simp add: reducer_def consecutiveSpaces_append)
  next
    case False
    show ?thesis
    proof (cases "testWhiteSpaceEnd text")
      case True
      with False show ?thesis
        using assms(1) w h by (auto simp add: reducer_def consecutiveSpaces_append)
    next
      case nws: False
      then have "text \<noteq> [] \<Longrightarrow> last text \<noteq> 0x20"
        by (auto simp add: testWhiteSpaceEnd_def isWhiteSpace_def)
      with False nws show ?thesis
        using assms(1) sw by (auto simp add: reducer_def consecutiveSpaces_append)
    qed
  qed
qed

lemma foldl_reducer_no_consecutiveSpaces:
  "\<not> consecutiveSpaces acc \<Longrightarrow>
   \<forall>w\<in>set items. \<not> startsWithSpace w \<and> \<not> consecutiveSpaces w \<Longrightarrow>
   \<not> consecutiveSpaces (foldl reducer acc items)"
  by (induction items arbitrary: acc) (simp_all add: reducer_no_consecutiveSpaces)

lemma pageText_no_consecutiveSpaces:
  "\<forall>w\<in>set items. \<not> startsWithSpace w \<and> \<not> consecutiveSpaces w \<Longrightarrow>
   \<not> consecutiveSpaces (pageText items)"
  unfolding pageText_def by (rule foldl_reducer_no_consecutiveSpaces) simp_all

lemma consecutiveSpaces_Cons: "c \<noteq> 0x20 \<Longrightarrow> consecutiveSpaces (c # s) = consecutiveSpaces s"
  by (cases s) simp_all

lemma join_no_consecutiveSpaces:
  "\<forall>s\<in>set xs. \<not> consecutiveSpaces s \<Longrightarrow> \<not> consecutiveSpaces (join blankLine xs)"
proof (induction blankLine xs rule: join.induct)
  case (3 x y ys)
  then show ?case by (simp add: consecutiveSpaces_append consecutiveSpaces_Cons)
qed simp_all

lemma reducer_whitespace:
  "\<forall>c\<in>set acc. isWhiteSpace c \<Longrightarrow> \<forall>c\<in>set w. isWhiteSpace c \<Longrightarrow>
   \<forall>c\<in>set (reducer acc w). isWhiteSpace c"
  by (auto simp add: reducer_def isWhiteSpace_newline)

lemma foldl_reducer_whitespace:
  "\<forall>c\<in>set acc. isWhiteSpace c \<Longrightarrow> \<forall>w\<in>set items. \<forall>c\<in>set w. isWhiteSpace c \<Longrightarrow>
   \<forall>c\<in>set (foldl reducer acc items). isWhiteSpace c"
proof (induction items arbitrary: acc)
  case Nil
  then show ?case by simp
next
  case (Cons w items)
  from Cons.prems have "\<forall>c\<in>set (reducer acc w). isWhiteSpace c"
    by (intro reducer_whitespace) simp_all
  with Cons.IH [of "reducer acc w"] Cons.prems(2) show ?case by simp
qed

lemma pageText_whitespace:
  "\<forall>w\<in>set items. \<forall>c\<in>set w. isWhiteSpace c \<Longrightarrow> \<forall>c\<in>set (pageText items). isWhiteSpace c"
  unfolding pageText_def by (rule foldl_reducer_whitespace) simp_all

lemma join_whitespace:
  "\<forall>s\<in>set xs. \<forall>c\<in>set s. isWhiteSpace c \<Longrightarrow> \<forall>c\<in>set (join blankLine xs). isWhiteSpace c"
  by (induction blankLine xs rule: join.induct) (auto simp add: isWhiteSpace_newline)

subsection \<open>Sorting the images\<close>

lemma keyLe_trans: "keyLe a b \<Longrightarrow> keyLe b c \<Longrightarrow> keyLe a c"
  by (auto simp add: keyLe_def)

lemma compare_neg: "compareImages a b < 0 \<Longrightarrow> keyLe a b"
  by (auto simp add: compareImages_def keyLe_def split: if_splits)

lemma compare_nonneg: "\<not> compareImages a b < 0 \<Longrightarrow> keyLe b a"
  by (auto simp add: compareImages_def keyLe_def split: if_splits) (metis image_type.exhaust)+

lemma set_insertSorted: "set (insertSorted cmp x ys) = insert x (set ys)"
  by (induction ys) auto

lemma sorted_insertSorted:
  "sorted_wrt keyLe ys \<Longrightarrow> sorted_wrt keyLe (insertSorted compareImages x ys)"
proof (induction ys)
  case Nil
  then show ?case by simp
next
  case (Cons y ys)
  show ?case
  proof (cases "compareImages x y < 0")
    case True
    then have "keyLe x y" by (rule compare_neg)
    with Cons.prems have "\<forall>z\<in>set (y # ys). keyLe x z"
      using keyLe_trans by auto
    with True Cons.prems show ?thesis by simp
  next
    case False
    then have "keyLe y x" by (rule compare_nonneg)
    with False Cons show ?thesis by (auto simp add: set_insertSorted)
  qed
qed

lemma sorted_foldl_insertSorted:
  "sorted_wrt keyLe acc \<Longrightarrow>
   sorted_wrt keyLe (foldl (\<lambda>sorted x. insertSorted compareImages x sorted) acc xs)"
  by (induction xs arbitrary: acc) (simp_all add: sorted_insertSorted)

lemma set_foldl_insertSorted:
  "set (foldl (\<lambda>sorted x. insertSorted cmp x sorted) acc xs) = set acc \<union> set xs"
  by (induction xs arbitrary: acc) (auto simp add: set_insertSorted)

lemma sorted_js_sort: "sorted_wrt keyLe (js_sort compareImages xs)"
  unfolding js_sort_def by (rule sorted_foldl_insertSorted) simp

lemma set_js_sort: "set (js_sort cmp xs) = set xs"
  unfolding js_sort_def by (simp add: set_foldl_insertSorted)

lemma sorted_extractImages: "sorted_wrt keyLe (extractImages pdfData)"
  by (simp add: extractImages_def sorted_js_sort split: sum.splits)


lemma two_page_images:
  "extractImages (buffer twoPageFile) =
     [\<lparr>data = js ''P'', type = TypePage, pageNumber = 1, width = 1224, height = 1584\<rparr>,
      \<lparr>data = js ''B'', type = TypeImage, pageNumber = 1, width = 100, height = 100\<rparr>,
      \<lparr>data = js ''P'', type = TypePage, pageNumber = 2, width = 1224, height = 1584\<rparr>,
      \<lparr>data = js ''B'', type = TypeImage, pageNumber = 2, width = 100, height = 100\<rparr>]"
  by code_simp

subsection \<open>The size threshold\<close>

lemma processOperator_threshold:
  assumes "\<forall>x\<in>set images. type x = TypeImage \<longrightarrow> 50 < width x \<and> 50 < height x"
  shows "\<forall>x\<in>set (processOperator i op images). type x = TypeImage \<longrightarrow> 50 < width x \<and> 50 < height x"
  using assms by (auto simp add: processOperator_def split: sum.splits option.splits)

lemma operatorLoop_threshold:
  "\<forall>x\<in>set images. type x = TypeImage \<longrightarrow> 50 < width x \<and> 50 < height x \<Longrightarrow>
   \<forall>x\<in>set (operatorLoop i ops images). type x = TypeImage \<longrightarrow> 50 < width x \<and> 50 < height x"
proof (induction ops arbitrary: images)
  case Nil
  then show ?case by simp
next
  case (Cons op ops)
  from processOperator_threshold [OF Cons.prems, of i op] Cons.IH show ?case by simp
qed

lemma capturePage_threshold:
  "\<forall>x\<in>set images. type x = TypeImage \<longrightarrow> 50 < width x \<and> 50 < height x \<Longrightarrow>
   \<forall>x\<in>set (capturePage i page images). type x = TypeImage \<longrightarrow> 50 < width x \<and> 50 < height x"
  by (auto simp add: capturePage_def split: sum.splits)

lemma pageLoop_threshold:
  "\<forall>x\<in>set images. type x = TypeImage \<longrightarrow> 50 < width x \<and> 50 < height x \<Longrightarrow>
   pageLoop i pdf images = Inr images' \<Longrightarrow>
   \<forall>x\<in>set images'. type x = TypeImage \<longrightarrow> 50 < width x \<and> 50 < height x"
proof (induction pdf arbitrary: i images)
  case Nil
  then show ?case by simp
next
  case (Cons p pdf)
  from Cons.prems(2) obtain page ops where p: "p = Inr page" "getOperatorList page = Inr ops"
    and l: "pageLoop (Suc i) pdf (capturePage i page (operatorLoop i ops images)) = Inr images'"
    by (auto split: sum.splits)
  have "\<forall>x\<in>set (capturePage i page (operatorLoop i ops images)).
      type x = TypeImage \<longrightarrow> 50 < width x \<and> 50 < height x"
    by (intro capturePage_threshold operatorLoop_threshold Cons.prems(1))
  from Cons.IH [OF this l] show ?case .
qed

subsection \<open>Calls of a request\<close>

lemma held_append: "held ws (xs @ ys) = held (held ws xs) ys"
  by (induction ws xs rule: held.induct) simp_all

lemma recognized_append: "recognized (xs @ ys) = recognized xs @ recognized ys"
  by (induction xs rule: recognized.induct) simp_all

lemma performOCR_calls:
  "cw n = Inr w \<Longrightarrow>
     snd (performOCR cw n imageBase64) =
       Acquire n # snd (recognitionPass n w imageBase64) @ [Release n]"
  by (simp add: performOCR_def split_beta split: option.splits)

lemma recognitionPass_calls:
  "Release m \<notin> set (snd (recognitionPass n w imageBase64))"
  "Acquire m \<notin> set (snd (recognitionPass n w imageBase64))"
  by (simp_all add: recognitionPass_def Let_def split: option.splits)

lemma held_recognitionPass: "held ws (snd (recognitionPass n w d)) = ws"
  by (simp add: recognitionPass_def Let_def split: option.splits)

lemma held_performOCR: "held ws (snd (performOCR cw n d)) = ws"
  by (simp add: performOCR_def split_beta held_append held_recognitionPass
      split: sum.splits option.splits)

lemma held_ocrLoop: "held ws (snd (ocrLoop cw n ds acc)) = ws"
proof (induction ds arbitrary: n acc)
  case Nil
  then show ?case by simp
next
  case (Cons d ds)
  have h: "held ws (snd (performOCR cw n d)) = ws" by (rule held_performOCR)
  show ?case
  proof (cases "fst (performOCR cw n d)")
    case (Inl e)
    with h show ?thesis by (simp add: split_beta)
  next
    case (Inr t)
    with h Cons.IH show ?thesis by (simp add: split_beta held_append)
  qed
qed

lemma held_switchFormat: "held ws (snd (switchFormat env f fmt ex)) = ws"
  by (simp add: switchFormat_def split_beta held_append held_ocrLoop
      split: sum.splits option.splits)

lemma held_processFile: "held ws (snd (processFile env req f)) = ws"
  by (simp add: processFile_def Let_def split_beta held_append held_switchFormat
      split: outcome.splits)

lemma held_handler: "held [] (snd (handler env req)) = []"
  by (simp add: handler_def held_processFile split: sum.splits option.splits)

lemma count_performOCR: "count_list (snd (performOCR cw n d)) ExtractImages = 0"
  by (simp add: performOCR_def recognitionPass_def split_beta Let_def
      split: sum.splits option.splits)

lemma count_ocrLoop: "count_list (snd (ocrLoop cw n ds acc)) ExtractImages = 0"
proof (induction ds arbitrary: n acc)
  case Nil
  then show ?case by simp
next
  case (Cons d ds)
  have h: "count_list (snd (performOCR cw n d)) ExtractImages = 0" by (rule count_performOCR)
  show ?case
  proof (cases "fst (performOCR cw n d)")
    case (Inl e)
    with h show ?thesis by (simp add: split_beta)
  next
    case (Inr t)
    with h Cons.IH show ?thesis by (simp add: split_beta)
  qed
qed

lemma recognized_performOCR:
  "fst (performOCR cw n d) = Inr t \<Longrightarrow>
   recognized (snd (performOCR cw n d)) = [js ''data:image/png;base64,'' @ d]"
  by (auto simp add: performOCR_def recognitionPass_def split_beta Let_def recognized_append
      split: sum.splits option.splits)

lemma recognized_ocrLoop:
  "fst (ocrLoop cw n ds acc) = Inr rs \<Longrightarrow>
   recognized (snd (ocrLoop cw n ds acc)) = map (\<lambda>d. js ''data:image/png;base64,'' @ d) ds"
proof (induction ds arbitrary: n acc)
  case Nil
  then show ?case by simp
next
  case (Cons d ds)
  show ?case
  proof (cases "fst (performOCR cw n d)")
    case (Inl e)
    with Cons.prems show ?thesis by (simp add: split_beta)
  next
    case (Inr t)
    with Cons.prems Cons.IH recognized_performOCR [OF Inr] show ?thesis
      by (simp add: split_beta recognized_append)
  qed
qed

subsection \<open>The handler on a request with a file\<close>

lemma processFile_default:
  "format req = None \<or> format req = Some [] \<Longrightarrow>
   processFile env req f = processFile env (req\<lparr>format := Some (js ''text'')\<rparr>) f"
  by (auto simp: processFile_def js_text_not_empty)

lemma handler_ocr:
  assumes "req_method req = js ''POST''" "upload req = Inr (Some f)"
    "format req = Some (js ''ocr'')"
  shows "handler env req =
    (case fst (ocrLoop (createWorker env) 0 (map data (extractImages (buffer f))) []) of
       Inl e \<Rightarrow> \<lparr>status = 500, json = ErrorBody (js ''Error processing PDF: '' @ message e)\<rparr>
     | Inr ocrResults \<Rightarrow>
         \<lparr>status = 200, json = ResultBody
            \<lparr>res_text = Some (join blankLine ocrResults),
             res_images =
               (if includeImages req = Some (js ''true'')
                then Some (extractImages (buffer f)) else None),
             res_metadata =
               (if includeMetadata req = Some (js ''true'')
                then Some (createMetadata env f (js ''pdf.js-enhanced+tesseract.js''))
                else None)\<rparr>\<rparr>,
     ExtractImages #
       snd (ocrLoop (createWorker env) 0 (map data (extractImages (buffer f))) []))"
  using assms
  by (simp add: handler_def processFile_def switchFormat_def js_ocr_distinct split_beta Let_def
      split: sum.splits)

lemma switchFormat_text_valid: "fst (switchFormat env f (js ''text'') ex) \<noteq> InvalidFormat"
  by (simp add: switchFormat_def split: sum.splits)

lemma processFile_text_valid:
  "format req = Some (js ''text'') \<Longrightarrow>
   json (fst (processFile env req f)) \<noteq> ErrorBody (js ''Invalid format specified'')"
  using switchFormat_text_valid [of env f]
  by (simp add: processFile_def js_text_not_empty split_beta Let_def split: outcome.splits)
     (simp add: js_def)

lemma sample_images:
  "extractImages (buffer sampleFile) =
     [\<lparr>data = js ''P'', type = TypePage, pageNumber = 1, width = 1224, height = 1584\<rparr>,
      \<lparr>data = js ''B'', type = TypeImage, pageNumber = 1, width = 100, height = 100\<rparr>]"
  by (simp add: sampleFile_def samplePage_def extractImages_def processOperator_def
      capturePage_def validObjectTypes_def js_sort_def compareImages_def)

lemma ocrLoop_results:
  "length ts = length ds \<Longrightarrow>
   (\<forall>k<length ds. fst (performOCR cw (n + k) (ds ! k)) = Inr (ts ! k)) \<Longrightarrow>
   fst (ocrLoop cw n ds acc) = Inr (acc @ filter (\<lambda>t. trim t \<noteq> []) ts)"
proof (induction ds arbitrary: n acc ts)
  case Nil
  then show ?case by simp
next
  case (Cons d ds)
  then obtain t ts' where ts: "ts = t # ts'" by (cases ts) auto
  from Cons.prems(2) have h: "fst (performOCR cw n d) = Inr t"
    using ts by fastforce
  have "\<forall>k<length ds. fst (performOCR cw (Suc n + k) (ds ! k)) = Inr (ts' ! k)"
  proof (intro allI impI)
    fix k assume "k < length ds"
    then have "Suc k < length (d # ds)" by simp
    with Cons.prems(2) have "fst (performOCR cw (n + Suc k) ((d # ds) ! Suc k)) = Inr (ts ! Suc k)"
      by blast
    then show "fst (performOCR cw (Suc n + k) (ds ! k)) = Inr (ts' ! k)"
      using ts by simp
  qed
  moreover from Cons.prems(1) ts have "length ts' = length ds" by simp
  ultimately have ih: "\<And>acc. fst (ocrLoop cw (Suc n) ds acc) = Inr (acc @ filter (\<lambda>t. trim t \<noteq> []) ts')"
    using Cons.IH by blast
  show ?case using h ih ts by (simp add: split_beta)
qed

lemma ocrLoop_throws:
  "k < length ds \<Longrightarrow>
   (\<forall>j<k. \<exists>t. fst (performOCR cw (n + j) (ds ! j)) = Inr t) \<Longrightarrow>
   fst (performOCR cw (n + k) (ds ! k)) = Inl e \<Longrightarrow>
   fst (ocrLoop cw n ds acc) = Inl e"
proof (induction ds arbitrary: n acc k)
  case Nil
  then show ?case by simp
next
  case (Cons d ds)
  show ?case
  proof (cases k)
    case 0
    with Cons.prems show ?thesis by (simp add: split_beta)
  next
    case (Suc k')
    with Cons.prems(2) obtain t where h: "fst (performOCR cw n d) = Inr t" by fastforce
    have a: "k' < length ds" using Cons.prems(1) Suc by simp
    have b: "\<forall>j<k'. \<exists>t. fst (performOCR cw (Suc n + j) (ds ! j)) = Inr t"
    proof (intro allI impI)
      fix j assume "j < k'"
      then have "Suc j < k" using Suc by simp
      with Cons.prems(2) have "\<exists>t. fst (performOCR cw (n + Suc j) ((d # ds) ! Suc j)) = Inr t"
        by blast
      then show "\<exists>t. fst (performOCR cw (Suc n + j) (ds ! j)) = Inr t" by simp
    qed
    have c: "fst (performOCR cw (Suc n + k') (ds ! k')) = Inl e"
      using Cons.prems(3) Suc by simp
    from Cons.IH [OF a b c] have "\<And>acc. fst (ocrLoop cw (Suc n) ds acc) = Inl e" .
    with h show ?thesis by (simp add: split_beta)
  qed
qed

lemma upt_Suc_shift: "map f [0..<Suc m] = f 0 # map (\<lambda>j. f (Suc j)) [0..<m]"
proof -
  have "[0..<Suc m] = 0 # map Suc [0..<m]"
    by (simp add: upt_conv_Cons map_Suc_upt del: upt_Suc)
  then show ?thesis by (simp add: comp_def del: upt_Suc)
qed

lemma ocrLoop_calls:
  "(\<forall>k<length ds. \<exists>t. fst (performOCR cw (n + k) (ds ! k)) = Inr t) \<Longrightarrow>
   snd (ocrLoop cw n ds acc) =
     concat (map (\<lambda>j. snd (performOCR cw (n + j) (ds ! j))) [0..<length ds])"
proof (induction ds arbitrary: n acc)
  case Nil
  then show ?case by simp
next
  case (Cons d ds)
  from Cons.prems obtain t where h: "fst (performOCR cw n d) = Inr t" by fastforce
  have b: "\<forall>k<length ds. \<exists>t. fst (performOCR cw (Suc n + k) (ds ! k)) = Inr t"
  proof (intro allI impI)
    fix k assume "k < length ds"
    then have "Suc k < length (d # ds)" by simp
    with Cons.prems have "\<exists>t. fst (performOCR cw (n + Suc k) ((d # ds) ! Suc k)) = Inr t"
      by blast
    then show "\<exists>t. fst (performOCR cw (Suc n + k) (ds ! k)) = Inr t" by simp
  qed
  have ih: "\<And>acc. snd (ocrLoop cw (Suc n) ds acc) =
      concat (map (\<lambda>j. snd (performOCR cw (Suc n + j) (ds ! j))) [0..<length ds])"
    using Cons.IH [OF b] .
  have "map (\<lambda>j. snd (performOCR cw (n + j) ((d # ds) ! j))) [0..<Suc (length ds)] =
      snd (performOCR cw n d) # map (\<lambda>j. snd (performOCR cw (Suc n + j) (ds ! j))) [0..<length ds]"
    by (simp add: upt_Suc_shift del: upt_Suc)
  with h ih show ?case by (simp add: split_beta del: upt_Suc)
qed

lemma ocrLoop_stops:
  "k < length ds \<Longrightarrow>
   (\<forall>j<k. \<exists>t. fst (performOCR cw (n + j) (ds ! j)) = Inr t) \<Longrightarrow>
   fst (performOCR cw (n + k) (ds ! k)) = Inl e \<Longrightarrow>
   snd (ocrLoop cw n ds acc) =
     concat (map (\<lambda>j. snd (performOCR cw (n + j) (ds ! j))) [0..<Suc k])"
proof (induction ds arbitrary: n acc k)
  case Nil
  then show ?case by simp
next
  case (Cons d ds)
  show ?case
  proof (cases k)
    case 0
    with Cons.prems show ?thesis by (simp add: split_beta)
  next
    case (Suc k')
    with Cons.prems(2) obtain t where h: "fst (performOCR cw n d) = Inr t" by fastforce
    have a: "k' < length ds" using Cons.prems(1) Suc by simp
    have b: "\<forall>j<k'. \<exists>t. fst (performOCR cw (Suc n + j) (ds ! j)) = Inr t"
    proof (intro allI impI)
      fix j assume "j < k'"
      then have "Suc j < k" using Suc by simp
      with Cons.prems(2) have "\<exists>t. fst (performOCR cw (n + Suc j) ((d # ds) ! Suc j)) = Inr t"
        by blast
      then show "\<exists>t. fst (performOCR cw (Suc n + j) (ds ! j)) = Inr t" by simp
    qed
    have c: "fst (performOCR cw (Suc n + k') (ds ! k')) = Inl e"
      using Cons.prems(3) Suc by simp
    have ih: "\<And>acc. snd (ocrLoop cw (Suc n) ds acc) =
        concat (map (\<lambda>j. snd (performOCR cw (Suc n + j) (ds ! j))) [0..<Suc k'])"
      using Cons.IH [OF a b c] .
    have "map (\<lambda>j. snd (performOCR cw (n + j) ((d # ds) ! j))) [0..<Suc (Suc k')] =
        snd (performOCR cw n d) #
        map (\<lambda>j. snd (performOCR cw (Suc n + j) (ds ! j))) [0..<Suc k']"
      by (simp add: upt_Suc_shift [of _ "Suc k'"] del: upt_Suc)
    with h ih Suc show ?thesis by (simp add: split_beta del: upt_Suc)
  qed
qed

lemma performOCR_worker:
  "Acquire m \<in> set (snd (performOCR cw n d)) \<Longrightarrow> m = n"
  "Recognize m u \<in> set (snd (performOCR cw n d)) \<Longrightarrow> m = n"
  by (auto simp add: performOCR_def recognitionPass_def split_beta Let_def
      split: sum.splits option.splits)

lemma formats_distinct:
  "js ''text'' \<noteq> js ''markdown''" "js ''text'' \<noteq> js ''images''" "js ''text'' \<noteq> js ''ocr''"
  "js ''markdown'' \<noteq> js ''images''" "js ''markdown'' \<noteq> js ''ocr''"
  "js ''images'' \<noteq> js ''ocr''"
  by (simp_all add: js_def)

lemma switchFormat_completed:
  assumes "fst (switchFormat env f fmt ex) = Completed res pw"
  shows "fmt \<in> {js ''text'', js ''markdown'', js ''images'', js ''ocr''} \<and>
         pw = (if fmt = js ''images'' then js ''pdf.js-enhanced''
               else if fmt = js ''ocr'' then js ''pdf.js-enhanced+tesseract.js''
               else fmt)"
proof -
  consider "fmt = js ''text''" | "fmt = js ''markdown''" | "fmt = js ''images''"
    | "fmt = js ''ocr''"
    | "fmt \<notin> {js ''text'', js ''markdown'', js ''images'', js ''ocr''}"
    by auto
  then show ?thesis
  proof cases
    case 1
    with assms show ?thesis
      by (simp add: switchFormat_def formats_distinct split: sum.splits)
  next
    case 2
    with assms show ?thesis
      by (simp add: switchFormat_def formats_distinct formats_distinct [symmetric]
          split: sum.splits)
  next
    case 3
    with assms show ?thesis
      by (simp add: switchFormat_def formats_distinct formats_distinct [symmetric])
  next
    case 4
    with assms show ?thesis
      by (simp add: switchFormat_def formats_distinct formats_distinct [symmetric] split_beta
          split: sum.splits)
  next
    case 5
    with assms show ?thesis
      by (simp add: switchFormat_def)
  qed
qed

lemma processFile_completed:
  assumes "fst (processFile env req f) = \<lparr>status = 200, json = ResultBody r\<rparr>"
    and "includeMetadata req = Some (js ''true'')"
  shows "\<exists>res pw ex.
     fst (switchFormat env f
        (case format req of None \<Rightarrow> js ''text'' | Some x \<Rightarrow> if x = [] then js ''text'' else x) ex)
       = Completed res pw \<and>
     res_metadata r = Some (createMetadata env f pw)"
proof -
  define fmt where
    "fmt = (case format req of None \<Rightarrow> js ''text'' | Some x \<Rightarrow> if x = [] then js ''text'' else x)"
  define ex where
    "ex = (if fmt = js ''images'' \<or> includeImages req = Some (js ''true'')
           then Some (extractImages (buffer f)) else None)"
  show ?thesis
  proof (cases "fst (switchFormat env f fmt ex)")
    case (Completed res pw)
    with assms have "res_metadata r = Some (createMetadata env f pw)"
      by (auto simp add: processFile_def split_beta Let_def fmt_def ex_def split: if_splits)
    with Completed show ?thesis unfolding fmt_def by blast
  next
    case (Thrown e)
    with assms show ?thesis
      by (simp add: processFile_def split_beta Let_def fmt_def ex_def split: if_splits)
  next
    case InvalidFormat
    with assms show ?thesis
      by (simp add: processFile_def split_beta Let_def fmt_def ex_def split: if_splits)
  qed
qed

section \<open>Validation of the format\<close>

text \<open>
  C1, as the code has it. A request with a file whose format is none of \<^verbatim>\<open>text\<close>,
  \<^verbatim>\<open>markdown\<close>, \<^verbatim>\<open>images\<close>, \<^verbatim>\<open>ocr\<close> is answered 400 \<^verbatim>\<open>Invalid format specified\<close>;
  no text extraction and no recognition runs. The images are extracted before the
  \<^verbatim>\<open>switch\<close> looks at the format, so image extraction runs, once, exactly when
  \<^verbatim>\<open>includeImages\<close> is \<^verbatim>\<open>'true'\<close>, and its result is dropped.
\<close>

theorem invalid_format_rejected:
  assumes "req_method req = js ''POST''" and "upload req = Inr (Some f)"
    and "format req = Some fmt" and "fmt \<noteq> []"
    and "fmt \<notin> {js ''text'', js ''markdown'', js ''images'', js ''ocr''}"
  shows "handler env req =
     (\<lparr>status = 400, json = ErrorBody (js ''Invalid format specified'')\<rparr>,
      if includeImages req = Some (js ''true'') then [ExtractImages] else [])"
  using assms by (simp add: handler_def processFile_def switchFormat_def)

theorem invalid_format_rejected_witness:
  "handler (sampleEngine []) (sampleRequest (Some (js ''pdf'')) None None) =
     (\<lparr>status = 400, json = ErrorBody (js ''Invalid format specified'')\<rparr>, [])"
  using invalid_format_rejected
    [of "sampleRequest (Some (js ''pdf'')) None None" sampleFile "js ''pdf''" "sampleEngine []"]
  by (simp add: sampleRequest_def) (simp add: js_def)

text \<open>
  C1 as stated fails: with the format \<^verbatim>\<open>pdf\<close> and \<^verbatim>\<open>includeImages\<close> set, the images
  are extracted before the request is rejected.
\<close>

theorem invalid_format_extracts_images:
  "js ''pdf'' \<notin> {js ''text'', js ''markdown'', js ''images'', js ''ocr''} \<and>
   handler (sampleEngine []) (sampleRequest (Some (js ''pdf'')) None (Some (js ''true''))) =
     (\<lparr>status = 400, json = ErrorBody (js ''Invalid format specified'')\<rparr>, [ExtractImages])"
  by code_simp

section \<open>One rasterization for OCR with images\<close>

text \<open>
  C5. A request with a file, the format \<^verbatim>\<open>ocr\<close> and \<^verbatim>\<open>includeImages\<close> set calls
  extractImages exactly once, whatever the recognition does; and when it is answered
  200, the \<^verbatim>\<open>images\<close> of the result are the outcome of that one call, and the data URLs
  given to the recognition are those of the same images, in the same order.
\<close>

theorem single_rasterization:
  assumes "req_method req = js ''POST''" and "upload req = Inr (Some f)"
    and "format req = Some (js ''ocr'')" and "includeImages req = Some (js ''true'')"
  shows "count_list (snd (handler env req)) ExtractImages = 1 \<and>
    (\<forall>r. fst (handler env req) = \<lparr>status = 200, json = ResultBody r\<rparr> \<longrightarrow>
       res_images r = Some (extractImages (buffer f)) \<and>
       recognized (snd (handler env req)) =
         map (\<lambda>i. js ''data:image/png;base64,'' @ data i) (extractImages (buffer f)))"
proof (cases "fst (ocrLoop (createWorker env) 0 (map data (extractImages (buffer f))) [])")
  case (Inl e)
  then show ?thesis
    by (simp add: handler_ocr [OF assms(1-3)] assms(4) count_ocrLoop)
next
  case (Inr rs)
  then show ?thesis
    using recognized_ocrLoop [OF Inr]
    by (auto simp add: handler_ocr [OF assms(1-3)] assms(4) count_ocrLoop comp_def)
qed

theorem single_rasterization_witness:
  "count_list
     (snd (handler (sampleEngine (js ''ok''))
        (sampleRequest (Some (js ''ocr'')) None (Some (js ''true''))))) ExtractImages = 1 \<and>
   fst (handler (sampleEngine (js ''ok''))
        (sampleRequest (Some (js ''ocr'')) None (Some (js ''true'')))) =
     \<lparr>status = 200, json = ResultBody
        \<lparr>res_text = Some (js ''ok'' @ blankLine @ js ''ok''),
         res_images = Some (extractImages (buffer sampleFile)),
         res_metadata = None\<rparr>\<rparr> \<and>
   recognized
     (snd (handler (sampleEngine (js ''ok''))
        (sampleRequest (Some (js ''ocr'')) None (Some (js ''true''))))) =
     [js ''data:image/png;base64,P'', js ''data:image/png;base64,B'']"
proof -
  let ?req = "sampleRequest (Some (js ''ocr'')) None (Some (js ''true''))"
  have r: "fst (handler (sampleEngine (js ''ok'')) ?req) =
     \<lparr>status = 200, json = ResultBody
        \<lparr>res_text = Some (js ''ok'' @ blankLine @ js ''ok''),
         res_images = Some (extractImages (buffer sampleFile)),
         res_metadata = None\<rparr>\<rparr>"
    by code_simp
  have d: "map (\<lambda>i. js ''data:image/png;base64,'' @ data i) (extractImages (buffer sampleFile))
      = [js ''data:image/png;base64,P'', js ''data:image/png;base64,B'']"
    by code_simp
  have "req_method ?req = js ''POST''" "upload ?req = Inr (Some sampleFile)"
    "format ?req = Some (js ''ocr'')" "includeImages ?req = Some (js ''true'')"
    by (simp_all add: sampleRequest_def)
  from single_rasterization [OF this, of "sampleEngine (js ''ok'')"] r d
  show ?thesis by simp
qed

section \<open>Release of the recognition engine\<close>

text \<open>
  C9. A pass of performOCR that acquired a worker calls \<^verbatim>\<open>terminate\<close> on it as its last
  call, exactly once, whatever \<^verbatim>\<open>loadLanguage\<close>, \<^verbatim>\<open>initialize\<close> and \<^verbatim>\<open>recognize\<close>
  answer (also when they throw): no worker is held after the pass that was not held
  before it. So no worker is held at the end of a request either.
\<close>

theorem engine_released:
  assumes "cw n = Inr w"
  shows "snd (performOCR cw n imageBase64) =
           Acquire n # snd (recognitionPass n w imageBase64) @ [Release n] \<and>
         Release n \<notin> set (snd (recognitionPass n w imageBase64)) \<and>
         held ws (snd (performOCR cw n imageBase64)) = ws \<and>
         held [] (snd (handler env req)) = []"
proof (intro conjI)
  show "snd (performOCR cw n imageBase64) =
          Acquire n # snd (recognitionPass n w imageBase64) @ [Release n]"
    using assms by (rule performOCR_calls)
  show "Release n \<notin> set (snd (recognitionPass n w imageBase64))"
    by (rule recognitionPass_calls)
  show "held ws (snd (performOCR cw n imageBase64)) = ws"
    by (rule held_performOCR)
  show "held [] (snd (handler env req)) = []"
    by (rule held_handler)
qed

theorem engine_released_witness:
  "fst (performOCR (createWorker failingEngine) 0 (js ''P'')) = Inl (Error (js ''boom'')) \<and>
   snd (performOCR (createWorker failingEngine) 0 (js ''P'')) =
     [Acquire 0, LoadLanguage 0, Initialize 0, Recognize 0 (js ''data:image/png;base64,P''),
      Release 0] \<and>
   held [] (snd (performOCR (createWorker failingEngine) 0 (js ''P''))) = []"
proof -
  let ?w = "\<lparr>loadLanguage = None, initialize = None,
             recognize = (\<lambda>d. Inl (Error (js ''boom''))), terminate = None\<rparr>"
  have w: "createWorker failingEngine 0 = Inr ?w"
    by (simp add: failingEngine_def)
  have r: "fst (performOCR (createWorker failingEngine) 0 (js ''P'')) = Inl (Error (js ''boom''))"
    by (simp add: failingEngine_def performOCR_def recognitionPass_def)
  have p: "snd (recognitionPass 0 ?w (js ''P'')) =
      [LoadLanguage 0, Initialize 0, Recognize 0 (js ''data:image/png;base64,P'')]"
    by (simp add: recognitionPass_def js_def)
  from engine_released [of "createWorker failingEngine" 0 ?w "js ''P''" "[]"] w r p
  show ?thesis by simp
qed

section \<open>The default format\<close>

text \<open>
  C10. A request whose \<^verbatim>\<open>format\<close> field is absent or empty is handled exactly as the same
  request with the format \<^verbatim>\<open>text\<close>: same response, same calls. It is never answered
  \<^verbatim>\<open>Invalid format specified\<close>.
\<close>

theorem absent_format_is_text:
  assumes "format req = None \<or> format req = Some []"
  shows "handler env req = handler env (req\<lparr>format := Some (js ''text'')\<rparr>) \<and>
         json (fst (handler env req)) \<noteq> ErrorBody (js ''Invalid format specified'')"
proof
  show eq: "handler env req = handler env (req\<lparr>format := Some (js ''text'')\<rparr>)"
    using assms by (simp add: handler_def processFile_default split: sum.splits option.splits)
  have "json (fst (handler env (req\<lparr>format := Some (js ''text'')\<rparr>)))
          \<noteq> ErrorBody (js ''Invalid format specified'')"
    by (simp add: handler_def processFile_text_valid split: sum.splits option.splits)
       (simp add: js_def)
  with eq show "json (fst (handler env req)) \<noteq> ErrorBody (js ''Invalid format specified'')"
    by simp
qed

theorem absent_format_is_text_witness:
  "format (sampleRequest None None None) = None \<and>
   handler (sampleEngine []) (sampleRequest None None None) =
     handler (sampleEngine []) (sampleRequest (Some (js ''text'')) None None) \<and>
   handler (sampleEngine []) (sampleRequest None None None) =
     (\<lparr>status = 200, json = ResultBody
         \<lparr>res_text = Some (js ''Hello world.''), res_images = None, res_metadata = None\<rparr>\<rparr>,
      [ExtractText])"
proof -
  have f: "format (sampleRequest None None None) = None"
    by (simp add: sampleRequest_def)
  have u: "(sampleRequest None None None)\<lparr>format := Some (js ''text'')\<rparr> =
      sampleRequest (Some (js ''text'')) None None"
    by (simp add: sampleRequest_def)
  have h: "handler (sampleEngine []) (sampleRequest (Some (js ''text'')) None None) =
     (\<lparr>status = 200, json = ResultBody
         \<lparr>res_text = Some (js ''Hello world.''), res_images = None, res_metadata = None\<rparr>\<rparr>,
      [ExtractText])"
    by code_simp
  from f have "format (sampleRequest None None None) = None \<or>
      format (sampleRequest None None None) = Some []" by simp
  from absent_format_is_text [OF this, of "sampleEngine []"] f u h show ?thesis by simp
qed

section \<open>Metadata\<close>

text \<open>
  C8. A request with a file and \<^verbatim>\<open>includeMetadata\<close> set that is answered 200 carries a
  metadata object with the size and the name of the uploaded file, the timestamp (the
  string \<^verbatim>\<open>toISOString\<close> returned, ISO 8601 by that function's contract) and
  \<^verbatim>\<open>processedWith\<close>: \<^verbatim>\<open>text\<close> for the format \<^verbatim>\<open>text\<close>, \<^verbatim>\<open>markdown\<close> for \<^verbatim>\<open>markdown\<close>,
  the extraction method \<^verbatim>\<open>pdf.js-enhanced\<close> for \<^verbatim>\<open>images\<close>, and
  \<^verbatim>\<open>pdf.js-enhanced+tesseract.js\<close> for \<^verbatim>\<open>ocr\<close>. The format is the one in force: \<^verbatim>\<open>text\<close>
  when the field is absent or empty.
\<close>

theorem metadata_attached:
  assumes "upload req = Inr (Some f)" and "includeMetadata req = Some (js ''true'')"
    and "fst (handler env req) = \<lparr>status = 200, json = ResultBody r\<rparr>"
  shows "let fmt = (case format req of None \<Rightarrow> js ''text''
                    | Some x \<Rightarrow> if x = [] then js ''text'' else x)
         in fmt \<in> {js ''text'', js ''markdown'', js ''images'', js ''ocr''} \<and>
            res_metadata r = Some
              \<lparr>fileSize = fsize f, filename = originalname f, timestamp = now env,
               processedWith =
                 (if fmt = js ''images'' then js ''pdf.js-enhanced''
                  else if fmt = js ''ocr'' then js ''pdf.js-enhanced+tesseract.js''
                  else fmt),
               extractionMethod = js ''pdf.js-enhanced''\<rparr>"
proof -
  from assms(1,3) have "fst (processFile env req f) = \<lparr>status = 200, json = ResultBody r\<rparr>"
    by (simp add: handler_def split: if_splits)
  from processFile_completed [OF this assms(2)] obtain res pw ex where
    sw: "fst (switchFormat env f
        (case format req of None \<Rightarrow> js ''text'' | Some x \<Rightarrow> if x = [] then js ''text'' else x) ex)
       = Completed res pw" and m: "res_metadata r = Some (createMetadata env f pw)"
    by blast
  from switchFormat_completed [OF sw] m show ?thesis
    by (simp add: Let_def createMetadata_def)
qed


theorem metadata_attached_witness:
  "fst (handler (sampleEngine (js ''ok'')) (sampleRequest (Some (js ''ocr'')) (Some (js ''true'')) None)) =
     \<lparr>status = 200, json = ResultBody
        \<lparr>res_text = Some (js ''ok'' @ blankLine @ js ''ok''), res_images = None,
         res_metadata = Some
           \<lparr>fileSize = 10, filename = js ''doc.pdf'', timestamp = js ''2024-01-01T00:00:00.000Z'',
            processedWith = js ''pdf.js-enhanced+tesseract.js'',
            extractionMethod = js ''pdf.js-enhanced''\<rparr>\<rparr>\<rparr>"
proof -
  let ?req = "sampleRequest (Some (js ''ocr'')) (Some (js ''true'')) None"
  let ?r = "\<lparr>res_text = Some (js ''ok'' @ blankLine @ js ''ok''), res_images = None,
         res_metadata = Some
           \<lparr>fileSize = 10, filename = js ''doc.pdf'', timestamp = js ''2024-01-01T00:00:00.000Z'',
            processedWith = js ''pdf.js-enhanced+tesseract.js'',
            extractionMethod = js ''pdf.js-enhanced''\<rparr>\<rparr>"
  have h: "fst (handler (sampleEngine (js ''ok'')) ?req) = \<lparr>status = 200, json = ResultBody ?r\<rparr>"
    by code_simp
  have "upload ?req = Inr (Some sampleFile)" "includeMetadata ?req = Some (js ''true'')"
    by (simp_all add: sampleRequest_def)
  from metadata_attached [OF this h] h show ?thesis by simp
qed

section \<open>Recognition over a batch of images\<close>

text \<open>
  C2, as the code has it. For the format \<^verbatim>\<open>ocr\<close>: when every pass returns a text, the
  request is answered 200 and its text joins, with a blank line, the texts that are not
  empty once trimmed, in the order of the images; an image whose text is empty is left
  out and the following images are still recognized (the calls of the request are
  those of one pass per image, and every image is handed to the recognition); when
  every text is empty the text of the result is empty. A pass that throws is not
  recovered: the first one ends the batch (the calls of the request are those of the
  passes up to it, and no later worker is acquired nor image recognized), and the
  request is answered 500 with the message of the error.
\<close>

theorem ocr_batch:
  assumes "req_method req = js ''POST''" and "upload req = Inr (Some f)"
    and "format req = Some (js ''ocr'')"
  shows
    "(length ts = length (extractImages (buffer f)) \<and>
      (\<forall>k<length (extractImages (buffer f)).
          fst (performOCR (createWorker env) k (data (extractImages (buffer f) ! k)))
            = Inr (ts ! k)) \<longrightarrow>
      (\<exists>r. fst (handler env req) = \<lparr>status = 200, json = ResultBody r\<rparr> \<and>
           res_text r = Some (join blankLine (filter (\<lambda>t. trim t \<noteq> []) ts)) \<and>
           ((\<forall>t\<in>set ts. trim t = []) \<longrightarrow> res_text r = Some [])) \<and>
      snd (handler env req) =
        ExtractImages #
        concat (map (\<lambda>j. snd (performOCR (createWorker env) j
                                (data (extractImages (buffer f) ! j))))
                  [0..<length (extractImages (buffer f))]) \<and>
      recognized (snd (handler env req)) =
        map (\<lambda>i. js ''data:image/png;base64,'' @ data i) (extractImages (buffer f))) \<and>
     (k < length (extractImages (buffer f)) \<and>
      (\<forall>j<k. \<exists>t. fst (performOCR (createWorker env) j (data (extractImages (buffer f) ! j)))
            = Inr t) \<and>
      fst (performOCR (createWorker env) k (data (extractImages (buffer f) ! k))) = Inl e \<longrightarrow>
      fst (handler env req) =
        \<lparr>status = 500, json = ErrorBody (js ''Error processing PDF: '' @ message e)\<rparr> \<and>
      snd (handler env req) =
        ExtractImages #
        concat (map (\<lambda>j. snd (performOCR (createWorker env) j
                                (data (extractImages (buffer f) ! j))))
                  [0..<Suc k]) \<and>
      (\<forall>m>k. Acquire m \<notin> set (snd (handler env req)) \<and>
              (\<forall>u. Recognize m u \<notin> set (snd (handler env req)))))"
proof (intro conjI impI)
  let ?imgs = "extractImages (buffer f)"
  let ?loop = "ocrLoop (createWorker env) 0 (map data ?imgs) []"
  assume a: "length ts = length ?imgs \<and>
      (\<forall>k<length ?imgs.
          fst (performOCR (createWorker env) k (data (?imgs ! k))) = Inr (ts ! k))"
  have res: "fst ?loop = Inr ([] @ filter (\<lambda>t. trim t \<noteq> []) ts)"
    using a by (intro ocrLoop_results) simp_all
  moreover have "(\<forall>t\<in>set ts. trim t = []) \<longrightarrow> filter (\<lambda>t. trim t \<noteq> []) ts = []"
    by (simp add: filter_empty_conv)
  ultimately show "\<exists>r. fst (handler env req) = \<lparr>status = 200, json = ResultBody r\<rparr> \<and>
           res_text r = Some (join blankLine (filter (\<lambda>t. trim t \<noteq> []) ts)) \<and>
           ((\<forall>t\<in>set ts. trim t = []) \<longrightarrow> res_text r = Some [])"
    by (auto simp add: handler_ocr [OF assms])
  have "snd ?loop =
      concat (map (\<lambda>j. snd (performOCR (createWorker env) (0 + j) (map data ?imgs ! j)))
                [0..<length (map data ?imgs)])"
    using a by (intro ocrLoop_calls) simp
  then have "snd ?loop =
      concat (map (\<lambda>j. snd (performOCR (createWorker env) j (data (?imgs ! j))))
                [0..<length ?imgs])"
  proof -
    assume l: "snd ?loop =
      concat (map (\<lambda>j. snd (performOCR (createWorker env) (0 + j) (map data ?imgs ! j)))
                [0..<length (map data ?imgs)])"
    have "map (\<lambda>j. snd (performOCR (createWorker env) (0 + j) (map data ?imgs ! j)))
                [0..<length (map data ?imgs)] =
          map (\<lambda>j. snd (performOCR (createWorker env) j (data (?imgs ! j))))
                [0..<length ?imgs]"
      by (rule map_cong) simp_all
    with l show ?thesis by (simp only:)
  qed
  then show "snd (handler env req) =
        ExtractImages #
        concat (map (\<lambda>j. snd (performOCR (createWorker env) j (data (?imgs ! j))))
                  [0..<length ?imgs])"
    by (simp add: handler_ocr [OF assms])
  from res have "recognized (snd ?loop) =
      map (\<lambda>d. js ''data:image/png;base64,'' @ d) (map data ?imgs)"
    by (rule recognized_ocrLoop)
  then show "recognized (snd (handler env req)) =
        map (\<lambda>i. js ''data:image/png;base64,'' @ data i) ?imgs"
    by (simp add: handler_ocr [OF assms] comp_def)
next
  let ?imgs = "extractImages (buffer f)"
  let ?loop = "ocrLoop (createWorker env) 0 (map data ?imgs) []"
  assume b: "k < length ?imgs \<and>
      (\<forall>j<k. \<exists>t. fst (performOCR (createWorker env) j (data (?imgs ! j))) = Inr t) \<and>
      fst (performOCR (createWorker env) k (data (?imgs ! k))) = Inl e"
  have "fst ?loop = Inl e"
    using b by (intro ocrLoop_throws [where k = k]) simp_all
  then show "fst (handler env req) =
        \<lparr>status = 500, json = ErrorBody (js ''Error processing PDF: '' @ message e)\<rparr>"
    by (simp add: handler_ocr [OF assms])
  have "snd ?loop =
      concat (map (\<lambda>j. snd (performOCR (createWorker env) (0 + j) (map data ?imgs ! j)))
                [0..<Suc k])"
    using b by (intro ocrLoop_stops [where e = e]) simp_all
  moreover have "Suc k \<le> length ?imgs" using b by simp
  ultimately have calls: "snd ?loop =
      concat (map (\<lambda>j. snd (performOCR (createWorker env) j (data (?imgs ! j)))) [0..<Suc k])"
  proof -
    assume l: "snd ?loop =
      concat (map (\<lambda>j. snd (performOCR (createWorker env) (0 + j) (map data ?imgs ! j)))
                [0..<Suc k])"
      and k: "Suc k \<le> length ?imgs"
    have "map (\<lambda>j. snd (performOCR (createWorker env) (0 + j) (map data ?imgs ! j)))
                [0..<Suc k] =
          map (\<lambda>j. snd (performOCR (createWorker env) j (data (?imgs ! j)))) [0..<Suc k]"
      using k by (intro map_cong) (simp_all del: upt_Suc)
    with l show ?thesis by (simp only:)
  qed
  then show tr: "snd (handler env req) =
        ExtractImages #
        concat (map (\<lambda>j. snd (performOCR (createWorker env) j (data (?imgs ! j))))
                  [0..<Suc k])"
    by (simp add: handler_ocr [OF assms] del: upt_Suc)
  show "\<forall>m>k. Acquire m \<notin> set (snd (handler env req)) \<and>
              (\<forall>u. Recognize m u \<notin> set (snd (handler env req)))"
  proof (intro allI impI conjI)
    fix m assume m: "k < m"
    show "Acquire m \<notin> set (snd (handler env req))"
    proof
      assume "Acquire m \<in> set (snd (handler env req))"
      with tr obtain j where "j < Suc k"
        "Acquire m \<in> set (snd (performOCR (createWorker env) j (data (?imgs ! j))))"
        by (auto simp del: upt_Suc)
      with performOCR_worker(1) have "m = j" "j < Suc k" by blast+
      with m show False by simp
    qed
    fix u
    show "Recognize m u \<notin> set (snd (handler env req))"
    proof
      assume "Recognize m u \<in> set (snd (handler env req))"
      with tr obtain j where "j < Suc k"
        "Recognize m u \<in> set (snd (performOCR (createWorker env) j (data (?imgs ! j))))"
        by (auto simp del: upt_Suc)
      with performOCR_worker(2) have "m = j" "j < Suc k" by blast+
      with m show False by simp
    qed
  qed
qed

theorem ocr_batch_witness:
  "handler mixedEngine (sampleRequest (Some (js ''ocr'')) None None) =
     (\<lparr>status = 200, json = ResultBody
         \<lparr>res_text = Some (js ''ok''), res_images = None, res_metadata = None\<rparr>\<rparr>,
      [ExtractImages,
       Acquire 0, LoadLanguage 0, Initialize 0, Recognize 0 (js ''data:image/png;base64,P''),
       Release 0,
       Acquire 1, LoadLanguage 1, Initialize 1, Recognize 1 (js ''data:image/png;base64,B''),
       Release 1]) \<and>
   fst (handler (sampleEngine (js '' '')) (sampleRequest (Some (js ''ocr'')) None None)) =
     \<lparr>status = 200, json = ResultBody
        \<lparr>res_text = Some [], res_images = None, res_metadata = None\<rparr>\<rparr> \<and>
   handler failingSecondEngine
     ((sampleRequest (Some (js ''ocr'')) None None)\<lparr>upload := Inr (Some twoPageFile)\<rparr>) =
     (\<lparr>status = 500, json = ErrorBody (js ''Error processing PDF: boom'')\<rparr>,
      [ExtractImages,
       Acquire 0, LoadLanguage 0, Initialize 0, Recognize 0 (js ''data:image/png;base64,P''),
       Release 0,
       Acquire 1, LoadLanguage 1, Initialize 1, Recognize 1 (js ''data:image/png;base64,B''),
       Release 1]) \<and>
   length (extractImages (buffer twoPageFile)) = 4 \<and>
   Acquire 2 \<notin> set (snd (handler failingSecondEngine
     ((sampleRequest (Some (js ''ocr'')) None None)\<lparr>upload := Inr (Some twoPageFile)\<rparr>)))"
proof -
  let ?req = "sampleRequest (Some (js ''ocr'')) None None"
  let ?req2 = "?req\<lparr>upload := Inr (Some twoPageFile)\<rparr>"
  have r: "req_method ?req = js ''POST''" "upload ?req = Inr (Some sampleFile)"
    "format ?req = Some (js ''ocr'')"
    by (simp_all add: sampleRequest_def)
  have r2: "req_method ?req2 = js ''POST''" "upload ?req2 = Inr (Some twoPageFile)"
    "format ?req2 = Some (js ''ocr'')"
    by (simp_all add: sampleRequest_def)
  have i: "includeImages ?req = None" "includeMetadata ?req = None"
    by (simp_all add: sampleRequest_def)

  have l1: "length [js '' '', js ''ok''] = length (extractImages (buffer sampleFile))"
    by (simp add: sample_images)
  have p1: "\<forall>k<length (extractImages (buffer sampleFile)).
      fst (performOCR (createWorker mixedEngine) k
            (data (extractImages (buffer sampleFile) ! k))) = Inr ([js '' '', js ''ok''] ! k)"
    by (simp add: sample_images mixedEngine_def performOCR_def recognitionPass_def
        less_Suc_eq)
  from ocr_batch [OF r, of "[js '' '', js ''ok'']" mixedEngine] l1 p1
  obtain r1 where r1: "fst (handler mixedEngine ?req) = \<lparr>status = 200, json = ResultBody r1\<rparr>"
      "res_text r1 = Some (join blankLine (filter (\<lambda>t. trim t \<noteq> []) [js '' '', js ''ok'']))"
    and c1: "snd (handler mixedEngine ?req) =
        ExtractImages #
        concat (map (\<lambda>j. snd (performOCR (createWorker mixedEngine) j
                                (data (extractImages (buffer sampleFile) ! j))))
                  [0..<length (extractImages (buffer sampleFile))])"
    by blast
  have t1: "join blankLine (filter (\<lambda>t. trim t \<noteq> []) [js '' '', js ''ok'']) = js ''ok''"
    by code_simp
  have e1: "ExtractImages #
        concat (map (\<lambda>j. snd (performOCR (createWorker mixedEngine) j
                                (data (extractImages (buffer sampleFile) ! j))))
                  [0..<length (extractImages (buffer sampleFile))]) =
      [ExtractImages,
       Acquire 0, LoadLanguage 0, Initialize 0, Recognize 0 (js ''data:image/png;base64,P''),
       Release 0,
       Acquire 1, LoadLanguage 1, Initialize 1, Recognize 1 (js ''data:image/png;base64,B''),
       Release 1]"
    by code_simp
  from r1(2) t1 have rt: "res_text r1 = Some (js ''ok'')" by (simp only:)
  from r1(1) rt have "r1 = \<lparr>res_text = Some (js ''ok''), res_images = None, res_metadata = None\<rparr>"
    by (auto simp add: handler_ocr [OF r] i split: sum.splits)
  with r1(1) c1 e1 have first: "handler mixedEngine ?req =
     (\<lparr>status = 200, json = ResultBody
         \<lparr>res_text = Some (js ''ok''), res_images = None, res_metadata = None\<rparr>\<rparr>,
      [ExtractImages,
       Acquire 0, LoadLanguage 0, Initialize 0, Recognize 0 (js ''data:image/png;base64,P''),
       Release 0,
       Acquire 1, LoadLanguage 1, Initialize 1, Recognize 1 (js ''data:image/png;base64,B''),
       Release 1])"
    by (simp add: prod_eq_iff)

  have l2: "length [js '' '', js '' ''] = length (extractImages (buffer sampleFile))"
    by (simp add: sample_images)
  have p2: "\<forall>k<length (extractImages (buffer sampleFile)).
      fst (performOCR (createWorker (sampleEngine (js '' ''))) k
            (data (extractImages (buffer sampleFile) ! k))) = Inr ([js '' '', js '' ''] ! k)"
    by (simp add: sample_images sampleEngine_def performOCR_def recognitionPass_def
        less_Suc_eq)
  have b2: "\<forall>t\<in>set [js '' '', js '' '']. trim t = []"
    by (simp add: js_def trim_def isWhiteSpace_def)
  from ocr_batch [OF r, of "[js '' '', js '' '']" "sampleEngine (js '' '')"] l2 p2 b2
  obtain r0 where r0: "fst (handler (sampleEngine (js '' '')) ?req) =
      \<lparr>status = 200, json = ResultBody r0\<rparr>" "res_text r0 = Some []"
    by blast
  from r0 have "r0 = \<lparr>res_text = Some [], res_images = None, res_metadata = None\<rparr>"
    by (auto simp add: handler_ocr [OF r] i split: sum.splits)
  with r0 have second: "fst (handler (sampleEngine (js '' '')) ?req) =
     \<lparr>status = 200, json = ResultBody
        \<lparr>res_text = Some [], res_images = None, res_metadata = None\<rparr>\<rparr>"
    by simp

  have n: "length (extractImages (buffer twoPageFile)) = 4"
    by (simp add: two_page_images)
  have k: "(1::nat) < length (extractImages (buffer twoPageFile))"
    by (simp add: two_page_images)
  have q0: "\<forall>j<(1::nat). \<exists>t. fst (performOCR (createWorker failingSecondEngine) j
            (data (extractImages (buffer twoPageFile) ! j))) = Inr t"
    by (simp add: two_page_images failingSecondEngine_def performOCR_def recognitionPass_def)
  have q1: "fst (performOCR (createWorker failingSecondEngine) 1
            (data (extractImages (buffer twoPageFile) ! 1))) = Inl (Error (js ''boom''))"
    by (simp add: two_page_images failingSecondEngine_def performOCR_def recognitionPass_def)
  from ocr_batch [OF r2, of _ failingSecondEngine 1 "Error (js ''boom'')"] k q0 q1
  have f3: "fst (handler failingSecondEngine ?req2) =
        \<lparr>status = 500, json = ErrorBody (js ''Error processing PDF: '' @ message (Error (js ''boom'')))\<rparr>"
    and c3: "snd (handler failingSecondEngine ?req2) =
        ExtractImages #
        concat (map (\<lambda>j. snd (performOCR (createWorker failingSecondEngine) j
                                (data (extractImages (buffer twoPageFile) ! j))))
                  [0..<Suc 1])"
    and a3: "\<forall>m>1. Acquire m \<notin> set (snd (handler failingSecondEngine ?req2)) \<and>
              (\<forall>u. Recognize m u \<notin> set (snd (handler failingSecondEngine ?req2)))"
    by blast+
  have m3: "js ''Error processing PDF: '' @ message (Error (js ''boom'')) =
      js ''Error processing PDF: boom''"
    by (simp add: js_def)
  have e3: "ExtractImages #
        concat (map (\<lambda>j. snd (performOCR (createWorker failingSecondEngine) j
                                (data (extractImages (buffer twoPageFile) ! j))))
                  [0..<Suc 1]) =
      [ExtractImages,
       Acquire 0, LoadLanguage 0, Initialize 0, Recognize 0 (js ''data:image/png;base64,P''),
       Release 0,
       Acquire 1, LoadLanguage 1, Initialize 1, Recognize 1 (js ''data:image/png;base64,B''),
       Release 1]"
    by code_simp
  from f3 c3 m3 e3 have third: "handler failingSecondEngine ?req2 =
     (\<lparr>status = 500, json = ErrorBody (js ''Error processing PDF: boom'')\<rparr>,
      [ExtractImages,
       Acquire 0, LoadLanguage 0, Initialize 0, Recognize 0 (js ''data:image/png;base64,P''),
       Release 0,
       Acquire 1, LoadLanguage 1, Initialize 1, Recognize 1 (js ''data:image/png;base64,B''),
       Release 1])"
    by (simp add: prod_eq_iff)
  from a3 have fourth: "Acquire 2 \<notin> set (snd (handler failingSecondEngine ?req2))"
    by simp
  from first second third n fourth show ?thesis by (intro conjI)
qed

text \<open>
  C2 as stated fails: when the recognition throws, the request is answered 500, not 200
  with an empty text.
\<close>

theorem ocr_failure_not_recovered:
  "fst (performOCR (createWorker failingEngine) 0 (js ''P'')) = Inl (Error (js ''boom'')) \<and>
   fst (handler failingEngine (sampleRequest (Some (js ''ocr'')) None None)) =
     \<lparr>status = 500, json = ErrorBody (js ''Error processing PDF: boom'')\<rparr>"
  by code_simp

section \<open>Text reconstruction\<close>

text \<open>
  C4, as the code has it. For a document whose pages all give their text items,
  extractText folds the items of every page from the left, starting from the empty
  string, with the spacing policy (a space after a final \<^verbatim>\<open>.\<close>, \<^verbatim>\<open>!\<close> or \<^verbatim>\<open>?\<close>; the
  item appended directly after a final whitespace; a space otherwise), joins the page
  strings, untrimmed, with one blank line between them, and trims the joined string
  once. A document without pages, or whose pages have no items or only items made of
  whitespace, gives the empty string.
\<close>

theorem text_reconstruction:
  assumes "map getTextContent pgs = map Inr itemss"
  shows "extractText (Inr (map Inr pgs)) = Inr (trim (join blankLine (map pageText itemss))) \<and>
    pageText [] = [] \<and>
    pageText (items @ [word]) =
      (if testPunctuationEnd (pageText items) then pageText items @ [0x20] @ word
       else if testWhiteSpaceEnd (pageText items) then pageText items @ word
       else pageText items @ [0x20] @ word) \<and>
    ((\<forall>items\<in>set itemss. \<forall>w\<in>set items. \<forall>c\<in>set w. isWhiteSpace c) \<longrightarrow>
       extractText (Inr (map Inr pgs)) = Inr [])"
proof (intro conjI impI)
  show e: "extractText (Inr (map Inr pgs)) = Inr (trim (join blankLine (map pageText itemss)))"
    using assms by (rule extractText_pages)
  show "pageText [] = []" by (simp add: pageText_def)
  show "pageText (items @ [word]) =
      (if testPunctuationEnd (pageText items) then pageText items @ [0x20] @ word
       else if testWhiteSpaceEnd (pageText items) then pageText items @ word
       else pageText items @ [0x20] @ word)"
    by (simp add: pageText_snoc reducer_def)
  assume "\<forall>items\<in>set itemss. \<forall>w\<in>set items. \<forall>c\<in>set w. isWhiteSpace c"
  then have "\<forall>s\<in>set (map pageText itemss). \<forall>c\<in>set s. isWhiteSpace c"
    using pageText_whitespace by auto
  then have "\<forall>c\<in>set (join blankLine (map pageText itemss)). isWhiteSpace c"
    by (rule join_whitespace)
  then have "trim (join blankLine (map pageText itemss)) = []" by (rule trim_whitespace)
  with e show "extractText (Inr (map Inr pgs)) = Inr []" by simp
qed

theorem text_reconstruction_witness:
  "extractText (Inr [Inr (textPage [js ''a'']), Inr (textPage [js ''b''])]) =
     Inr (js ''a'' @ blankLine @ js '' b'') \<and>
   extractText (Inr [Inr (textPage []), Inr (textPage [js '' ''])]) = Inr []"
proof -
  have a: "map getTextContent [textPage [js ''a''], textPage [js ''b'']]
      = map Inr [[js ''a''], [js ''b'']]"
    by (simp add: textPage_def)
  have b: "map getTextContent [textPage [], textPage [js '' '']] = map Inr [[], [js '' '']]"
    by (simp add: textPage_def)
  have c: "trim (join blankLine (map pageText [[js ''a''], [js ''b'']]))
      = js ''a'' @ blankLine @ js '' b''"
    by code_simp
  have d: "\<forall>items\<in>set [[], [js '' '']]. \<forall>w\<in>set items. \<forall>c\<in>set w. isWhiteSpace c"
    by (simp add: js_def isWhiteSpace_def)
  have "extractText (Inr (map Inr [textPage [js ''a''], textPage [js ''b'']])) =
      Inr (trim (join blankLine (map pageText [[js ''a''], [js ''b'']])))"
    using text_reconstruction [OF a] by (rule conjunct1)
  with c have first: "extractText (Inr [Inr (textPage [js ''a'']), Inr (textPage [js ''b''])]) =
      Inr (js ''a'' @ blankLine @ js '' b'')"
    by simp
  have "extractText (Inr (map Inr [textPage [], textPage [js '' '']])) = Inr []"
    using text_reconstruction [OF b] d by blast
  then have second: "extractText (Inr [Inr (textPage []), Inr (textPage [js '' ''])]) = Inr []"
    by simp
  from first second show ?thesis by (rule conjI)
qed

text \<open>
  C4 as stated fails: the page strings are not trimmed, so the second page keeps the
  space the fold puts before its first item.
\<close>

theorem text_reconstruction_differs:
  "extractText (Inr [Inr (textPage [js ''a'']), Inr (textPage [js ''b''])]) =
     Inr (js ''a'' @ blankLine @ js '' b'') \<and>
   spec_reconstruct [[js ''a''], [js ''b'']] = js ''a'' @ blankLine @ js ''b''"
  by code_simp

section \<open>Spacing of the reconstructed text\<close>

text \<open>
  C3, as the code has it. When no item of a page starts with a space character or has
  two space characters in a row, the page string has no two space characters in a row.
  The page string is not trimmed; the string extractText returns is, and it neither
  starts nor ends with whitespace; when no item of the document starts with a space
  character or has two in a row, it has no two space characters in a row either.
\<close>

theorem spacing_invariant:
  "((\<forall>w\<in>set items. \<not> startsWithSpace w \<and> \<not> consecutiveSpaces w) \<longrightarrow>
      \<not> consecutiveSpaces (pageText items)) \<and>
   (extractText pdfData = Inr s \<longrightarrow> \<not> startsWithWhiteSpace s \<and> \<not> endsWithWhiteSpace s) \<and>
   (map getTextContent pgs = map Inr itemss \<and>
    (\<forall>items\<in>set itemss. \<forall>w\<in>set items. \<not> startsWithSpace w \<and> \<not> consecutiveSpaces w) \<longrightarrow>
      (\<exists>t. extractText (Inr (map Inr pgs)) = Inr t \<and> \<not> consecutiveSpaces t))"
proof (intro conjI impI)
  assume "\<forall>w\<in>set items. \<not> startsWithSpace w \<and> \<not> consecutiveSpaces w"
  then show "\<not> consecutiveSpaces (pageText items)" by (rule pageText_no_consecutiveSpaces)
next
  assume "extractText pdfData = Inr s"
  then obtain fullText where "s = trim fullText"
    by (auto simp add: extractText_def split: sum.splits)
  then show "\<not> startsWithWhiteSpace s" "\<not> endsWithWhiteSpace s"
    by (simp_all add: trim_not_starts trim_not_ends)
next
  assume a: "map getTextContent pgs = map Inr itemss \<and>
    (\<forall>items\<in>set itemss. \<forall>w\<in>set items. \<not> startsWithSpace w \<and> \<not> consecutiveSpaces w)"
  then have "\<forall>s\<in>set (map pageText itemss). \<not> consecutiveSpaces s"
    using pageText_no_consecutiveSpaces by auto
  then have "\<not> consecutiveSpaces (join blankLine (map pageText itemss))"
    by (rule join_no_consecutiveSpaces)
  then have "\<not> consecutiveSpaces (trim (join blankLine (map pageText itemss)))"
    using consecutiveSpaces_trim by blast
  with a show "\<exists>t. extractText (Inr (map Inr pgs)) = Inr t \<and> \<not> consecutiveSpaces t"
    by (simp add: extractText_pages)
qed

theorem spacing_invariant_witness:
  "pageText [js ''Hello'', js ''world.''] = js '' Hello world.'' \<and>
   \<not> consecutiveSpaces (pageText [js ''Hello'', js ''world.'']) \<and>
   \<not> consecutiveSpaces (pageText [js ''So it is.'', js ''Or not'']) \<and>
   extractText (buffer sampleFile) = Inr (js ''Hello world.'') \<and>
   \<not> startsWithWhiteSpace (js ''Hello world.'') \<and>
   \<not> endsWithWhiteSpace (js ''Hello world.'') \<and>
   \<not> consecutiveSpaces (js ''Hello world.'')"
proof -
  have p: "pageText [js ''Hello'', js ''world.''] = js '' Hello world.''" by code_simp
  have e: "extractText (buffer sampleFile) = Inr (js ''Hello world.'')" by code_simp
  have n: "\<forall>w\<in>set [js ''Hello'', js ''world.'']. \<not> startsWithSpace w \<and> \<not> consecutiveSpaces w"
    by (simp add: js_def startsWithSpace_def)
  have m: "\<forall>w\<in>set [js ''So it is.'', js ''Or not'']. \<not> startsWithSpace w \<and> \<not> consecutiveSpaces w"
    by (simp add: js_def startsWithSpace_def)
  have k: "\<not> consecutiveSpaces (pageText [js ''So it is.'', js ''Or not''])"
    using spacing_invariant [of "[js ''So it is.'', js ''Or not'']"] m by blast
  have g: "map getTextContent [samplePage] = map Inr [[js ''Hello'', js ''world.'']]"
    by (simp add: samplePage_def)
  have b: "buffer sampleFile = Inr (map Inr [samplePage])" by (simp add: sampleFile_def)
  from spacing_invariant
    [of "[js ''Hello'', js ''world.'']" "buffer sampleFile" "js ''Hello world.''"
        "[samplePage]" "[[js ''Hello'', js ''world.'']]"]
    p e n g b k
  show ?thesis by simp
qed

text \<open>
  C3 as stated fails: an item that starts with a space follows the space the fold
  inserts, and the page string starts with the space put before its first item.
\<close>

theorem spacing_invariant_fails:
  "pageText [js ''a'', js '' b''] = js '' a  b'' \<and>
   consecutiveSpaces (pageText [js ''a'', js '' b'']) \<and>
   startsWithWhiteSpace (pageText [js ''a'', js '' b''])"
  by code_simp

section \<open>Order of the extracted images\<close>

text \<open>
  C6. In the sequence extractImages returns, an entry never has a greater page number
  than a later one, and among entries of one page number no embedded image comes before
  the page capture. The sort is the engine's; see \<open>js_sort\<close> for how it is modelled.
\<close>

theorem ordering_invariant:
  assumes "i < j" and "j < length (extractImages pdfData)"
  shows "pageNumber (extractImages pdfData ! i) \<le> pageNumber (extractImages pdfData ! j) \<and>
     (pageNumber (extractImages pdfData ! i) = pageNumber (extractImages pdfData ! j) \<longrightarrow>
        \<not> (type (extractImages pdfData ! i) = TypeImage \<and>
           type (extractImages pdfData ! j) = TypePage))"
proof -
  have "keyLe (extractImages pdfData ! i) (extractImages pdfData ! j)"
    using sorted_extractImages [of pdfData] assms by (simp add: sorted_wrt_iff_nth_less)
  then show ?thesis by (auto simp add: keyLe_def)
qed

theorem ordering_invariant_witness:
  "extractImages (buffer twoPageFile) ! 1 =
     \<lparr>data = js ''B'', type = TypeImage, pageNumber = 1, width = 100, height = 100\<rparr> \<and>
   extractImages (buffer twoPageFile) ! 2 =
     \<lparr>data = js ''P'', type = TypePage, pageNumber = 2, width = 1224, height = 1584\<rparr> \<and>
   pageNumber (extractImages (buffer twoPageFile) ! 1)
     \<le> pageNumber (extractImages (buffer twoPageFile) ! 2)"
proof -
  have l: "(1::nat) < 2" "2 < length (extractImages (buffer twoPageFile))"
    by (simp_all add: two_page_images)
  from ordering_invariant [OF l] show ?thesis by (simp add: two_page_images)
qed

section \<open>Size threshold of the embedded images\<close>

text \<open>
  C7. Every embedded entry of the sequence extractImages returns is more than 50 wide
  and more than 50 high; and the iteration over a raster object that is at most 50 wide,
  at most 50 high, or has no pixel data adds no entry.
\<close>

theorem threshold_invariant:
  "(\<forall>x\<in>set (extractImages pdfData). type x = TypeImage \<longrightarrow> 50 < width x \<and> 50 < height x) \<and>
   (snd op = Inr (Some img) \<and>
    (obj_width img \<le> 50 \<or> obj_height img \<le> 50 \<or> obj_data img = None) \<longrightarrow>
      processOperator i op images = images)"
proof (intro conjI impI)
  show "\<forall>x\<in>set (extractImages pdfData). type x = TypeImage \<longrightarrow> 50 < width x \<and> 50 < height x"
  proof (cases pdfData)
    case (Inl e)
    then show ?thesis by (simp add: extractImages_def)
  next
    case (Inr pdf)
    show ?thesis
    proof (cases "pageLoop 1 pdf []")
      case (Inl e)
      with Inr show ?thesis by (simp add: extractImages_def)
    next
      case imgs: (Inr images')
      have "\<forall>x\<in>set images'. type x = TypeImage \<longrightarrow> 50 < width x \<and> 50 < height x"
        by (rule pageLoop_threshold [OF _ imgs]) simp
      with Inr imgs show ?thesis by (simp add: extractImages_def set_js_sort)
    qed
  qed
next
  assume "snd op = Inr (Some img) \<and>
    (obj_width img \<le> 50 \<or> obj_height img \<le> 50 \<or> obj_data img = None)"
  then show "processOperator i op images = images"
    by (auto simp add: processOperator_def)
qed

theorem threshold_invariant_witness:
  "extractImages (buffer sampleFile) =
     [\<lparr>data = js ''P'', type = TypePage, pageNumber = 1, width = 1224, height = 1584\<rparr>,
      \<lparr>data = js ''B'', type = TypeImage, pageNumber = 1, width = 100, height = 100\<rparr>] \<and>
   50 < width (extractImages (buffer sampleFile) ! 1) \<and>
   processOperator 1
     (paintImageXObject,
      Inr (Some \<lparr>obj_data = Some [], obj_width = 40, obj_height = 40,
                  obj_png = Inr (js ''S'')\<rparr>)) [] = []"
proof -
  let ?img = "\<lparr>obj_data = Some [], obj_width = 40, obj_height = 40, obj_png = Inr (js ''S'')\<rparr>"
  have s: "extractImages (buffer sampleFile) =
     [\<lparr>data = js ''P'', type = TypePage, pageNumber = 1, width = 1224, height = 1584\<rparr>,
      \<lparr>data = js ''B'', type = TypeImage, pageNumber = 1, width = 100, height = 100\<rparr>]"
    by code_simp
  from threshold_invariant
    [of "buffer sampleFile" "(paintImageXObject, Inr (Some ?img))" ?img 1 "[]"] s
  show ?thesis by simp
qed

end
